theory Spec2Isabelle
  imports Main
begin

section \<open>Catalog data\<close>

text \<open>
  A variant of a product carries a stock quantity. In the catalog's answer the member
  \<^verbatim>\<open>inventory_quantity\<close> is an integer, or \<^verbatim>\<open>null\<close> (a variant whose stock is not
  tracked), or it is missing, and then reads as \<^verbatim>\<open>undefined\<close>. A product has a vendor
  (its brand), a title and an ordered list of variants, which the catalog always sends.
  JavaScript numbers are modelled as unbounded integers: the quantities of the catalog are
  integers far below the range where doubles stop being exact.
\<close>

datatype quantity = Missing | Null | Quantity int

record variant =
  inventory_quantity :: quantity

record product =
  vendor :: string
  title :: string
  variants :: "variant list"

text \<open>
  The expression \<^verbatim>\<open>variant.inventory_quantity || 0\<close>: \<^verbatim>\<open>undefined\<close>, \<^verbatim>\<open>null\<close> and 0
  are falsy and give 0, every other number gives itself.
\<close>

definition quantity_or_zero :: "variant \<Rightarrow> int" where
  "quantity_or_zero v =
     (case inventory_quantity v of
        Missing \<Rightarrow> 0
      | Null \<Rightarrow> 0
      | Quantity q \<Rightarrow> if q = 0 then 0 else q)"

text \<open>
  The inner loop of \<^verbatim>\<open>checkBrandStock\<close>:
  \<^verbatim>\<open>for (const variant of product.variants) productTotalStock += variant.inventory_quantity || 0\<close>,
  with the running total as accumulator.
\<close>

fun sumVariants :: "int \<Rightarrow> variant list \<Rightarrow> int" where
  "sumVariants productTotalStock [] = productTotalStock"
| "sumVariants productTotalStock (v # vs) = sumVariants (productTotalStock + quantity_or_zero v) vs"

definition productTotalStock :: "product \<Rightarrow> int" where
  "productTotalStock p = sumVariants 0 (variants p)"

text \<open>The outer loop: \<^verbatim>\<open>if (productTotalStock <= 0) oosProducts++\<close>.\<close>

fun countOos :: "int \<Rightarrow> product list \<Rightarrow> int" where
  "countOos oosProducts [] = oosProducts"
| "countOos oosProducts (p # ps) =
     countOos (if productTotalStock p \<le> 0 then oosProducts + 1 else oosProducts) ps"

record stock_status =
  allOOS :: bool
  totalProducts :: int
  oosProducts :: int
  inStockProducts :: int

text \<open>
  The aggregation of \<^verbatim>\<open>checkBrandStock\<close> (server.js, lines 119 to 148), applied to the
  products that the fetch returned: the early return for an empty list, then the counts.
\<close>

definition aggregate :: "product list \<Rightarrow> stock_status" where
  "aggregate products =
     (if length products = 0 then
        \<lparr>allOOS = False, totalProducts = 0, oosProducts = 0, inStockProducts = 0\<rparr>
      else
        (let total = int (length products);
             oos = countOos 0 products
         in \<lparr>allOOS = (total = oos), totalProducts = total, oosProducts = oos,
             inStockProducts = total - oos\<rparr>))"

section \<open>The catalog's HTTP interface\<close>

text \<open>
  Strings are lists of bytes: a text is its UTF-8 encoding, a header value its Latin-1 code
  units. The configuration holds what the environment variables give at startup.
\<close>

record config =
  SHOPIFY_SHOP :: string
  SHOPIFY_WEBHOOK_SECRET :: string
  BRANDS_TO_MONITOR :: "string list"

text \<open>
  What \<^verbatim>\<open>fetch\<close> hands back: the promise rejects (no answer from the network), or it
  resolves to a response with a status line, a body and possibly a \<^verbatim>\<open>Link\<close> header.
  The field \<open>products_json\<close> is what \<^verbatim>\<open>response.json()\<close> gives: \<open>None\<close> when the
  body is not JSON (the promise rejects) or is \<^verbatim>\<open>null\<close> (reading \<^verbatim>\<open>data.products\<close>
  throws), \<open>Some None\<close> for a body without a \<^verbatim>\<open>products\<close> member, \<open>Some (Some ps)\<close>
  otherwise.
\<close>

record response =
  status :: nat
  statusText :: string
  products_json :: "product list option option"
  linkHeader :: "string option"

datatype fetch_result = Unreachable string | Response response

datatype error =
    ShopifyApiError nat string
  | ApiError nat string
  | FetchError string
  | InvalidJson

text \<open>\<^verbatim>\<open>response.ok\<close> of node-fetch: the status is in the range 200 to 299.\<close>

definition response_ok :: "response \<Rightarrow> bool" where
  "response_ok r = (200 \<le> status r \<and> status r < 300)"

subsection \<open>The first URL\<close>

text \<open>
  \<^verbatim>\<open>encodeURIComponent\<close> keeps letters, digits and \<^verbatim>\<open>- _ . ! ~ * ' ( )\<close> and writes
  every other byte of the UTF-8 encoding as \<^verbatim>\<open>%XX\<close> with upper-case digits.
\<close>

definition uri_unreserved :: "char \<Rightarrow> bool" where
  "uri_unreserved c =
     (c \<in> set (''ABCDEFGHIJKLMNOPQRSTUVWXYZabcdefghijklmnopqrstuvwxyz0123456789-_.!~*()''
                @ [CHR 0x27]))"

definition hex_digit :: "nat \<Rightarrow> char" where
  "hex_digit n = ''0123456789ABCDEF'' ! (n mod 16)"

definition percent_encode :: "char \<Rightarrow> string" where
  "percent_encode c =
     (if uri_unreserved c then [c]
      else [CHR ''%'', hex_digit (of_char c div 16), hex_digit (of_char c mod 16)])"

definition encodeURIComponent :: "string \<Rightarrow> string" where
  "encodeURIComponent s = concat (map percent_encode s)"

definition products_url :: "config \<Rightarrow> string \<Rightarrow> string" where
  "products_url cfg vendor_name =
     ''https://'' @ SHOPIFY_SHOP cfg @ ''/admin/api/2024-10/products.json?vendor=''
       @ encodeURIComponent vendor_name @ ''&limit=250''"

subsection \<open>The pagination header\<close>

text \<open>
  \<^verbatim>\<open>linkHeader.match(/<([^>]+)>;\s*rel="next"/)\<close>. The class \<^verbatim>\<open>\s\<close> of JavaScript,
  on Latin-1 code units: tab, line feed, vertical tab, form feed, carriage return, space
  and the no-break space.
\<close>

definition js_whitespace :: "char \<Rightarrow> bool" where
  "js_whitespace c =
     (c = CHR 0x09 \<or> c = CHR 0x0A \<or> c = CHR 0x0B \<or> c = CHR 0x0C \<or> c = CHR 0x0D
      \<or> c = CHR 0x20 \<or> c = CHR 0xA0)"

definition rel_next :: string where
  "rel_next = ''rel='' @ [CHR 0x22] @ ''next'' @ [CHR 0x22]"

fun starts_with :: "string \<Rightarrow> string \<Rightarrow> bool" where
  "starts_with [] s = True"
| "starts_with (p # ps) [] = False"
| "starts_with (p # ps) (c # cs) = (p = c \<and> starts_with ps cs)"

text \<open>
  A match that starts at the head of the string. The group \<^verbatim>\<open>[^>]+\<close> is greedy and the
  next character of the pattern is \<^verbatim>\<open>>\<close>, so the group is the longest run without
  \<^verbatim>\<open>>\<close>, and it must not be empty; the same holds for \<^verbatim>\<open>\s*\<close> before \<^verbatim>\<open>rel\<close>.
\<close>

definition match_next_here :: "string \<Rightarrow> string option" where
  "match_next_here s =
     (case s of
        [] \<Rightarrow> None
      | c # r \<Rightarrow>
          if c \<noteq> CHR ''<'' then None
          else
            (let target = takeWhile (\<lambda>x. x \<noteq> CHR ''>'') r;
                 after = dropWhile (\<lambda>x. x \<noteq> CHR ''>'') r
             in if target = [] then None
                else
                  (case after of
                     gt # semi # t \<Rightarrow>
                       if semi = CHR '';'' \<and> starts_with rel_next (dropWhile js_whitespace t)
                       then Some target else None
                   | _ \<Rightarrow> None)))"

text \<open>The leftmost match, as \<^verbatim>\<open>String.prototype.match\<close> finds it; the result is group 1.\<close>

fun match_next :: "string \<Rightarrow> string option" where
  "match_next [] = None"
| "match_next (c # cs) =
     (case match_next_here (c # cs) of Some u \<Rightarrow> Some u | None \<Rightarrow> match_next cs)"

text \<open>
  Lines 102 to 109 of server.js: \<^verbatim>\<open>url = null\<close>, then the header's match when the header
  is there and not empty.
\<close>

definition next_url :: "string option \<Rightarrow> string option" where
  "next_url h =
     (case h of None \<Rightarrow> None | Some l \<Rightarrow> if l = [] then None else match_next l)"

subsection \<open>getProductsForBrand (server.js)\<close>

text \<open>
  The loop \<^verbatim>\<open>while (url) { ... }\<close> with \<^verbatim>\<open>allProducts\<close> as accumulator. The catalog
  is a function from the URL asked to the answer. A catalog whose pages point at each
  other in a circle keeps the loop running for ever: the result is then \<open>None\<close>.
  A thrown error is \<open>Inl\<close>.
\<close>

partial_function (option) whileUrl ::
  "(string \<Rightarrow> fetch_result) \<Rightarrow> string option \<Rightarrow> product list \<Rightarrow> (error + product list) option"
where
  "whileUrl fetch url allProducts =
     (case url of
        None \<Rightarrow> Some (Inr allProducts)
      | Some u \<Rightarrow>
          if u = [] then Some (Inr allProducts)
          else
            (case fetch u of
               Unreachable msg \<Rightarrow> Some (Inl (FetchError msg))
             | Response r \<Rightarrow>
                 if \<not> response_ok r then Some (Inl (ShopifyApiError (status r) (statusText r)))
                 else
                   (case products_json r of
                      None \<Rightarrow> Some (Inl InvalidJson)
                    | Some d \<Rightarrow>
                        whileUrl fetch (next_url (linkHeader r))
                          (allProducts @ (case d of None \<Rightarrow> [] | Some ps \<Rightarrow> ps)))))"

declare whileUrl.simps [code]

definition getProductsForBrand ::
  "(string \<Rightarrow> fetch_result) \<Rightarrow> config \<Rightarrow> string \<Rightarrow> (error + product list) option" where
  "getProductsForBrand fetch cfg vendor_name =
     whileUrl fetch (Some (products_url cfg vendor_name)) []"

text \<open>\<^verbatim>\<open>checkBrandStock\<close> (server.js): the fetch, then the aggregation.\<close>

definition checkBrandStock ::
  "(string \<Rightarrow> fetch_result) \<Rightarrow> config \<Rightarrow> string \<Rightarrow> (error + stock_status) option" where
  "checkBrandStock fetch cfg vendor_name =
     (case getProductsForBrand fetch cfg vendor_name of
        None \<Rightarrow> None
      | Some (Inl e) \<Rightarrow> Some (Inl e)
      | Some (Inr products) \<Rightarrow> Some (Inr (aggregate products)))"

section \<open>The signature of an inbound request\<close>

subsection \<open>HMAC-SHA256 and base64, as the crypto module computes them\<close>

text \<open>
  \<^verbatim>\<open>crypto.createHmac('sha256', secret).update(data).digest('base64')\<close> is a function of
  the library, written out here after FIPS 180-4, RFC 2104 and RFC 4648 so that the
  verification can be run on concrete requests. Bytes and 32-bit words are integers;
  every sum is reduced modulo \<open>2 ^ 32\<close>.
\<close>

unbundle bit_operations_syntax

definition trunc32 :: "int \<Rightarrow> int" where
  "trunc32 x = x mod 4294967296"

definition rotate_right :: "nat \<Rightarrow> int \<Rightarrow> int" where
  "rotate_right n x = x div 2 ^ n + (x mod 2 ^ n) * 2 ^ (32 - n)"

definition round_constants :: "int list" where
  "round_constants =
     [1116352408, 1899447441, 3049323471, 3921009573, 961987163, 1508970993,
      2453635748, 2870763221, 3624381080, 310598401, 607225278, 1426881987,
      1925078388, 2162078206, 2614888103, 3248222580, 3835390401, 4022224774,
      264347078, 604807628, 770255983, 1249150122, 1555081692, 1996064986,
      2554220882, 2821834349, 2952996808, 3210313671, 3336571891, 3584528711,
      113926993, 338241895, 666307205, 773529912, 1294757372, 1396182291,
      1695183700, 1986661051, 2177026350, 2456956037, 2730485921, 2820302411,
      3259730800, 3345764771, 3516065817, 3600352804, 4094571909, 275423344,
      430227734, 506948616, 659060556, 883997877, 958139571, 1322822218,
      1537002063, 1747873779, 1955562222, 2024104815, 2227730452, 2361852424,
      2428436474, 2756734187, 3204031479, 3329325298]"

definition initial_hash :: "int list" where
  "initial_hash =
     [1779033703, 3144134277, 1013904242, 2773480762,
      1359893119, 2600822924, 528734635, 1541459225]"

definition small_sigma0 :: "int \<Rightarrow> int" where
  "small_sigma0 x = rotate_right 7 x XOR rotate_right 18 x XOR x div 2 ^ 3"

definition small_sigma1 :: "int \<Rightarrow> int" where
  "small_sigma1 x = rotate_right 17 x XOR rotate_right 19 x XOR x div 2 ^ 10"

definition big_sigma0 :: "int \<Rightarrow> int" where
  "big_sigma0 x = rotate_right 2 x XOR rotate_right 13 x XOR rotate_right 22 x"

definition big_sigma1 :: "int \<Rightarrow> int" where
  "big_sigma1 x = rotate_right 6 x XOR rotate_right 11 x XOR rotate_right 25 x"

definition sha_choice :: "int \<Rightarrow> int \<Rightarrow> int \<Rightarrow> int" where
  "sha_choice x y z = (x AND y) XOR ((4294967295 - x) AND z)"

definition sha_majority :: "int \<Rightarrow> int \<Rightarrow> int \<Rightarrow> int" where
  "sha_majority x y z = (x AND y) XOR (x AND z) XOR (y AND z)"

text \<open>
  The message schedule, newest word first: from the sixteen words of a block to all
  sixty-four.
\<close>

fun schedule :: "nat \<Rightarrow> int list \<Rightarrow> int list" where
  "schedule 0 ws = ws"
| "schedule (Suc n) ws =
     schedule n
       (trunc32 (small_sigma1 (ws ! 1) + ws ! 6 + small_sigma0 (ws ! 14) + ws ! 15) # ws)"

text \<open>The working variables \<open>a\<close> to \<open>h\<close> through the rounds, one constant and one word each.\<close>

fun sha_rounds :: "int list \<Rightarrow> int list \<Rightarrow> int list \<Rightarrow> int list" where
  "sha_rounds [a, b, c, d, e, f, g, h] (k # ks) (w # ws) =
     (let t1 = h + big_sigma1 e + sha_choice e f g + k + w;
          t2 = big_sigma0 a + sha_majority a b c
      in sha_rounds [trunc32 (t1 + t2), a, b, c, trunc32 (d + t1), e, f, g] ks ws)"
| "sha_rounds vars ks ws = vars"

definition sha_block :: "int list \<Rightarrow> int list \<Rightarrow> int list" where
  "sha_block hs block =
     map2 (\<lambda>x y. trunc32 (x + y)) hs
       (sha_rounds hs round_constants (rev (schedule 48 (rev block))))"

fun words_of_bytes :: "int list \<Rightarrow> int list" where
  "words_of_bytes (b3 # b2 # b1 # b0 # bs) =
     (((b3 * 256 + b2) * 256 + b1) * 256 + b0) # words_of_bytes bs"
| "words_of_bytes bs = []"

definition bytes_of_word :: "int \<Rightarrow> int list" where
  "bytes_of_word w = [w div 16777216, w div 65536 mod 256, w div 256 mod 256, w mod 256]"

fun blocks_of :: "nat \<Rightarrow> int list \<Rightarrow> int list list" where
  "blocks_of 0 ws = []"
| "blocks_of (Suc n) ws = take 16 ws # blocks_of n (drop 16 ws)"

text \<open>
  Padding: the byte 128, zero bytes up to 56 modulo 64, then the length in bits on eight
  bytes, most significant first.
\<close>

definition sha_padding :: "nat \<Rightarrow> int list" where
  "sha_padding len =
     128 # replicate ((119 - len mod 64) mod 64) 0
       @ map (\<lambda>i. int (len * 8) div 256 ^ i mod 256) [7, 6, 5, 4, 3, 2, 1, 0]"

definition sha256 :: "int list \<Rightarrow> int list" where
  "sha256 msg =
     (let padded = msg @ sha_padding (length msg)
      in concat (map bytes_of_word
           (foldl sha_block initial_hash
              (blocks_of (length padded div 64) (words_of_bytes padded)))))"

definition hmac_sha256 :: "int list \<Rightarrow> int list \<Rightarrow> int list" where
  "hmac_sha256 key msg =
     (let k0 = (if 64 < length key then sha256 key else key);
          k = k0 @ replicate (64 - length k0) 0
      in sha256 (map (\<lambda>b. b XOR 92) k @ sha256 (map (\<lambda>b. b XOR 54) k @ msg)))"

definition base64_alphabet :: string where
  "base64_alphabet = ''ABCDEFGHIJKLMNOPQRSTUVWXYZabcdefghijklmnopqrstuvwxyz0123456789+/''"

definition base64_char :: "int \<Rightarrow> char" where
  "base64_char n = base64_alphabet ! nat (n mod 64)"

fun base64 :: "int list \<Rightarrow> string" where
  "base64 (x # y # z # rest) =
     [base64_char (x div 4), base64_char (x mod 4 * 16 + y div 16),
      base64_char (y mod 16 * 4 + z div 64), base64_char (z mod 64)] @ base64 rest"
| "base64 [x, y] =
     [base64_char (x div 4), base64_char (x mod 4 * 16 + y div 16),
      base64_char (y mod 16 * 4), CHR ''='']"
| "base64 [x] = [base64_char (x div 4), base64_char (x mod 4 * 16), CHR ''='', CHR ''='']"
| "base64 [] = []"

definition bytes_of_string :: "string \<Rightarrow> int list" where
  "bytes_of_string s = map (\<lambda>c. int (of_char c)) s"

definition hmac_base64 :: "string \<Rightarrow> string \<Rightarrow> string" where
  "hmac_base64 secret data = base64 (hmac_sha256 (bytes_of_string secret) (bytes_of_string data))"

subsection \<open>The parsed body and its serialisation\<close>

text \<open>
  \<^verbatim>\<open>req.body\<close> is what \<^verbatim>\<open>express.json()\<close> parsed. An object is the list of its
  members in the order in which JavaScript enumerates them; numbers are integers (in the
  range where a double is exact and prints without an exponent); a string is the UTF-8
  encoding of its text. \<^verbatim>\<open>JSON.stringify\<close> with one argument writes no white space,
  escapes the quote, the backslash and the control characters inside strings and leaves
  every other character as it is.
\<close>

datatype json =
    JNull
  | JBool bool
  | JNumber int
  | JString string
  | JArray "json list"
  | JObject "(string \<times> json) list"

fun decimal :: "nat \<Rightarrow> string" where
  "decimal n =
     (if n < 10 then [''0123456789'' ! n] else decimal (n div 10) @ [''0123456789'' ! (n mod 10)])"

definition number_text :: "int \<Rightarrow> string" where
  "number_text i = (if i < 0 then CHR ''-'' # decimal (nat (- i)) else decimal (nat i))"

definition json_escape :: "char \<Rightarrow> string" where
  "json_escape c =
     (if c = CHR 0x22 then [CHR 0x5C, CHR 0x22]
      else if c = CHR 0x5C then [CHR 0x5C, CHR 0x5C]
      else if c = CHR 0x08 then [CHR 0x5C, CHR ''b'']
      else if c = CHR 0x09 then [CHR 0x5C, CHR ''t'']
      else if c = CHR 0x0A then [CHR 0x5C, CHR ''n'']
      else if c = CHR 0x0C then [CHR 0x5C, CHR ''f'']
      else if c = CHR 0x0D then [CHR 0x5C, CHR ''r'']
      else if (of_char c :: nat) < 32 then
        [CHR 0x5C, CHR ''u'', CHR ''0'', CHR ''0'',
         ''0123456789abcdef'' ! (of_char c div 16), ''0123456789abcdef'' ! (of_char c mod 16)]
      else [c])"

definition json_quote :: "string \<Rightarrow> string" where
  "json_quote s = CHR 0x22 # concat (map json_escape s) @ [CHR 0x22]"

fun comma_join :: "string list \<Rightarrow> string" where
  "comma_join [] = []"
| "comma_join [x] = x"
| "comma_join (x # y # ys) = x @ CHR '','' # comma_join (y # ys)"

fun stringify :: "json \<Rightarrow> string" where
  "stringify JNull = ''null''"
| "stringify (JBool b) = (if b then ''true'' else ''false'')"
| "stringify (JNumber i) = number_text i"
| "stringify (JString s) = json_quote s"
| "stringify (JArray xs) = CHR ''['' # comma_join (map stringify xs) @ '']''"
| "stringify (JObject members) =
     CHR ''{'' # comma_join (map (\<lambda>(k, v). json_quote k @ CHR '':'' # stringify v) members) @ ''}''"

subsection \<open>verifyWebhook\<close>

text \<open>
  An inbound request as the handlers read it: the value of the header
  \<^verbatim>\<open>X-Shopify-Hmac-Sha256\<close> (\<open>None\<close> when the header is absent), the bytes of the body
  as they arrived (\<open>None\<close> when no body was read) and the parsed body.
\<close>

record request =
  hmac_header :: "string option"
  rawBody :: "string option"
  body :: json

text \<open>
  server.js, lines 71 to 79: the hash is taken over \<^verbatim>\<open>JSON.stringify(req.body)\<close> and
  compared with \<^verbatim>\<open>===\<close>.
\<close>

definition verifyWebhook :: "config \<Rightarrow> request \<Rightarrow> bool" where
  "verifyWebhook cfg req =
     (let hmac = hmac_header req;
          serialised = stringify (body req);
          hash = hmac_base64 (SHOPIFY_WEBHOOK_SECRET cfg) serialised
      in Some hash = hmac)"

text \<open>
  \<^verbatim>\<open>crypto.timingSafeEqual\<close> throws a RangeError when the two buffers differ in length
  and compares them otherwise.
\<close>

definition timingSafeEqual :: "string \<Rightarrow> string \<Rightarrow> string + bool" where
  "timingSafeEqual a b =
     (if length a \<noteq> length b then Inl ''Input buffers must have the same byte length''
      else Inr (a = b))"

text \<open>
  The later variant of the server (unnamed/part_001; its \<^verbatim>\<open>verifyWebhook\<close>, lines 100
  to 130, marked CRITICAL FIX there): the two guards, the hash over the buffer that
  \<^verbatim>\<open>express.json\<close> saved as \<^verbatim>\<open>req.rawBody\<close>, and \<^verbatim>\<open>timingSafeEqual\<close> inside
  \<^verbatim>\<open>try\<close>.
\<close>

definition verifyWebhook_rawBody :: "config \<Rightarrow> request \<Rightarrow> bool" where
  "verifyWebhook_rawBody cfg req =
     (case hmac_header req of
        None \<Rightarrow> False
      | Some hmac \<Rightarrow>
          if hmac = [] then False
          else
            (case rawBody req of
               None \<Rightarrow> False
             | Some raw \<Rightarrow>
                 (let generatedHash = hmac_base64 (SHOPIFY_WEBHOOK_SECRET cfg) raw
                  in case timingSafeEqual generatedHash hmac of
                       Inl err \<Rightarrow> False
                     | Inr same \<Rightarrow> same)))"

section \<open>The notifier\<close>

text \<open>
  An alert stands for the subject and the text that the handler builds from the brand and
  the counts of the snapshot (the time stamp in the text is left out).
\<close>

datatype alert =
    AllOutOfStock string stock_status
  | BackInStock string stock_status

datatype alert_kind = Depletion | Restock

fun kind_of :: "alert \<Rightarrow> alert_kind" where
  "kind_of (AllOutOfStock b st) = Depletion"
| "kind_of (BackInStock b st) = Restock"

fun brand_of :: "alert \<Rightarrow> string" where
  "brand_of (AllOutOfStock b st) = b"
| "brand_of (BackInStock b st) = b"

text \<open>
  What \<^verbatim>\<open>transporter.sendMail\<close> does with a message: its promise settles after some
  milliseconds, resolved with a message id or rejected with an error (a message and
  possibly a code), or it never settles.
\<close>

datatype delivery = Accepted string | Refused string "string option"

datatype transport_run = Settles nat delivery | NeverSettles

record email_result =
  success :: bool
  messageId :: "string option"
  error_message :: "string option"
  error_code :: "string option"

text \<open>
  \<^verbatim>\<open>Promise.race([sendPromise, timeoutPromise])\<close>: the promise that settles first decides;
  \<open>Inl\<close> is a rejection. A send that settles before the timer does wins the race; a tie
  is given to the timer.
\<close>

definition race_timeout :: "nat \<Rightarrow> string \<Rightarrow> transport_run \<Rightarrow> (string \<times> string option) + string" where
  "race_timeout ms timeout_message run =
     (case run of
        NeverSettles \<Rightarrow> Inl (timeout_message, None)
      | Settles t d \<Rightarrow>
          if t < ms then
            (case d of Accepted mid \<Rightarrow> Inr mid | Refused msg code \<Rightarrow> Inl (msg, code))
          else Inl (timeout_message, None))"

text \<open>\<^verbatim>\<open>sendEmail\<close> of server.js (lines 152 to 177): the race inside \<^verbatim>\<open>try\<close>, the \<^verbatim>\<open>catch\<close>
  turning every rejection into a result.\<close>

definition sendEmail :: "transport_run \<Rightarrow> email_result" where
  "sendEmail run =
     (case race_timeout 10000 ''Email send timeout after 10 seconds'' run of
        Inr mid \<Rightarrow>
          \<lparr>success = True, messageId = Some mid, error_message = None, error_code = None\<rparr>
      | Inl (msg, code) \<Rightarrow>
          \<lparr>success = False, messageId = None, error_message = Some msg, error_code = code\<rparr>)"

section \<open>The reconciler of the webhook server\<close>

text \<open>
  \<^verbatim>\<open>lastNotificationState\<close> maps a brand to \<^verbatim>\<open>'OOS'\<close> or \<^verbatim>\<open>'IN_STOCK'\<close>; a brand without
  an entry reads as \<^verbatim>\<open>undefined\<close>. The object is a map here: the brand names are
  taken to be ordinary property names.
\<close>

datatype notification_state = OOS | IN_STOCK

type_synonym notification_store = "string \<Rightarrow> notification_state option"

text \<open>
  The world around one pass: the catalog, what the mail transport does with each alert
  handed to it, and (for the stand-alone monitor, which keeps its state in a file) whether
  the state file can be written.
\<close>

record environment =
  catalog :: "string \<Rightarrow> fetch_result"
  smtp :: "alert \<Rightarrow> transport_run"
  state_file_writable :: bool

text \<open>
  The body of the loop after \<^verbatim>\<open>checkBrandStock\<close> has returned (server.js, lines 199 to
  232): the stored state is read, then one of the two branches sends and writes, or
  nothing happens. The pair is the store and the log of the alerts sent so far, each with
  the result of \<^verbatim>\<open>sendEmail\<close>.
\<close>

definition reconcileBrand ::
  "(alert \<Rightarrow> transport_run) \<Rightarrow> string \<Rightarrow> stock_status
     \<Rightarrow> notification_store \<times> (alert \<times> email_result) list
     \<Rightarrow> notification_store \<times> (alert \<times> email_result) list" where
  "reconcileBrand transport brand stockStatus st =
     (let lastState = fst st brand in
      if allOOS stockStatus \<and> lastState \<noteq> Some OOS then
        (let a = AllOutOfStock brand stockStatus;
             sending = sendEmail (transport a)
         in ((fst st)(brand \<mapsto> OOS), snd st @ [(a, sending)]))
      else if \<not> allOOS stockStatus \<and> 0 < inStockProducts stockStatus \<and> lastState = Some OOS then
        (let a = BackInStock brand stockStatus;
             sending = sendEmail (transport a)
         in ((fst st)(brand \<mapsto> IN_STOCK), snd st @ [(a, sending)]))
      else st)"

text \<open>
  How a pass ends: the loop ran through, an error left it for the one \<^verbatim>\<open>catch\<close> around
  the loop (lines 194 and 234), or a fetch never returned.
\<close>

datatype ending = Completed | Caught error | Pending

record pass =
  lastNotificationState :: notification_store
  sent :: "(alert \<times> email_result) list"
  ending :: ending

fun forBrands ::
  "environment \<Rightarrow> config \<Rightarrow> string list
     \<Rightarrow> notification_store \<times> (alert \<times> email_result) list \<Rightarrow> pass" where
  "forBrands env cfg [] st =
     \<lparr>lastNotificationState = fst st, sent = snd st, ending = Completed\<rparr>"
| "forBrands env cfg (brand # rest) st =
     (case checkBrandStock (catalog env) cfg brand of
        None \<Rightarrow> \<lparr>lastNotificationState = fst st, sent = snd st, ending = Pending\<rparr>
      | Some (Inl e) \<Rightarrow> \<lparr>lastNotificationState = fst st, sent = snd st, ending = Caught e\<rparr>
      | Some (Inr stockStatus) \<Rightarrow>
          forBrands env cfg rest (reconcileBrand (smtp env) brand stockStatus st))"

text \<open>
  The handler of \<^verbatim>\<open>POST /webhook/inventory\<close> (server.js, lines 180 to 237): 401 and
  nothing else when the signature is refused (the pass is then the empty one), otherwise
  200 and one pass over the monitored brands.
\<close>

datatype reply = Unauthorized | OK

definition webhook_inventory ::
  "environment \<Rightarrow> config \<Rightarrow> request \<Rightarrow> notification_store \<Rightarrow> reply \<times> pass" where
  "webhook_inventory env cfg req store =
     (if \<not> verifyWebhook cfg req then
        (Unauthorized, \<lparr>lastNotificationState = store, sent = [], ending = Completed\<rparr>)
      else (OK, forBrands env cfg (BRANDS_TO_MONITOR cfg) (store, [])))"

text \<open>
  Requests that do not overlap: each request is handled to the end of its pass before the
  next one arrives, each in the world of its moment, from a store (empty when the process
  starts) and a log. The result is the store and every alert sent, oldest first. Requests
  that arrive while a pass is waiting are the subject of the section on requests that
  overlap.
\<close>

fun serve ::
  "config \<Rightarrow> (environment \<times> request) list
     \<Rightarrow> notification_store \<times> (alert \<times> email_result) list
     \<Rightarrow> notification_store \<times> (alert \<times> email_result) list" where
  "serve cfg [] st = st"
| "serve cfg ((env, req) # later) st =
     (let p = snd (webhook_inventory env cfg req (fst st))
      in serve cfg later (lastNotificationState p, snd st @ sent p))"

text \<open>The alerts about one brand in a log, and their kinds.\<close>

definition alerts_about :: "string \<Rightarrow> (alert \<times> 'r) list \<Rightarrow> alert list" where
  "alerts_about b log = filter (\<lambda>a. brand_of a = b) (map fst log)"

definition alerts_for :: "string \<Rightarrow> (alert \<times> 'r) list \<Rightarrow> alert_kind list" where
  "alerts_for b log = map kind_of (alerts_about b log)"

text \<open>The state that a snapshot implies.\<close>

definition implied_state :: "stock_status \<Rightarrow> notification_state" where
  "implied_state stockStatus = (if allOOS stockStatus then OOS else IN_STOCK)"

section \<open>Requests that overlap\<close>

text \<open>
  The handler is an \<^verbatim>\<open>async\<close> function: it runs until it reaches an \<^verbatim>\<open>await\<close>, and
  while it waits there the server handles whatever else arrives. It waits at
  \<^verbatim>\<open>await checkBrandStock(brand)\<close> (line 198) and at \<^verbatim>\<open>await sendEmail(...)\<close> (lines 206
  and 221). So between reading \<^verbatim>\<open>lastNotificationState[brand]\<close> (line 199) and writing it
  (lines 215 and 231) the handler gives up control, and nothing in the server keeps another
  handler from reading the same entry in the meantime.

  A handler that waits is what remains of its loop: it waits for the stock of a brand, or
  for the mail about a brand, after which it will write the new state of the brand; in both
  cases the brands still to come are kept. Or it is over.
\<close>

datatype handler =
    AwaitingStock string "string list"
  | AwaitingEmail string notification_state "string list"
  | Over ending

text \<open>The head of the loop: the next brand is looked up, or the loop ends.\<close>

definition next_brand :: "string list \<Rightarrow> handler" where
  "next_brand brands = (case brands of [] \<Rightarrow> Over Completed | brand # rest \<Rightarrow> AwaitingStock brand rest)"

text \<open>
  One run of a handler from the \<^verbatim>\<open>await\<close> at which it waits to the next one, on the store
  and the log of alerts as they are at that moment. When the stock of a brand has come in,
  the stored state is read and the decision is taken; an alert is handed to the transport
  at once (\<^verbatim>\<open>sendMail\<close> is called before \<^verbatim>\<open>sendEmail\<close> waits) and is logged here with the
  result that \<^verbatim>\<open>sendEmail\<close> will have. When \<^verbatim>\<open>sendEmail\<close> has returned, the state is
  written. A fetch that never returns leaves the handler waiting for ever.
\<close>

definition resume ::
  "environment \<Rightarrow> config \<Rightarrow> handler
     \<Rightarrow> notification_store \<times> (alert \<times> email_result) list
     \<Rightarrow> handler \<times> notification_store \<times> (alert \<times> email_result) list" where
  "resume env cfg h st =
     (case h of
        AwaitingStock brand rest \<Rightarrow>
          (case checkBrandStock (catalog env) cfg brand of
             None \<Rightarrow> (Over Pending, st)
           | Some (Inl e) \<Rightarrow> (Over (Caught e), st)
           | Some (Inr stockStatus) \<Rightarrow>
               (let lastState = fst st brand in
                if allOOS stockStatus \<and> lastState \<noteq> Some OOS then
                  (let a = AllOutOfStock brand stockStatus
                   in (AwaitingEmail brand OOS rest,
                       fst st, snd st @ [(a, sendEmail (smtp env a))]))
                else if \<not> allOOS stockStatus \<and> 0 < inStockProducts stockStatus
                     \<and> lastState = Some OOS then
                  (let a = BackInStock brand stockStatus
                   in (AwaitingEmail brand IN_STOCK rest,
                       fst st, snd st @ [(a, sendEmail (smtp env a))]))
                else (next_brand rest, st)))
      | AwaitingEmail brand new rest \<Rightarrow> (next_brand rest, (fst st)(brand \<mapsto> new), snd st)
      | Over e \<Rightarrow> (Over e, st))"

text \<open>
  What happens to the server: a request arrives in the world of its moment, or the wait of
  the handler with a given number (in the order of arrival) comes to an end.
\<close>

datatype event = Arrives environment request | Wakes nat

text \<open>
  The server over a sequence of such events, in any order: its state is the handlers
  started so far, the store and the log. An arriving request is verified and answered, and
  its handler runs up to the first \<^verbatim>\<open>await\<close>; a request that is refused has no more to
  do.
\<close>

fun server ::
  "config \<Rightarrow> event list
     \<Rightarrow> (environment \<times> handler) list \<times> notification_store \<times> (alert \<times> email_result) list
     \<Rightarrow> (environment \<times> handler) list \<times> notification_store \<times> (alert \<times> email_result) list" where
  "server cfg [] state = state"
| "server cfg (Arrives env req # later) state =
     server cfg later
       (fst state @ [(env, if verifyWebhook cfg req then next_brand (BRANDS_TO_MONITOR cfg)
                           else Over Completed)],
        snd state)"
| "server cfg (Wakes i # later) state =
     (if i < length (fst state) then
        (let env = fst (fst state ! i);
             res = resume env cfg (snd (fst state ! i)) (snd state)
         in server cfg later ((fst state)[i := (env, fst res)], snd res))
      else server cfg later state)"

section \<open>The stand-alone monitor (shopify-api-only-monitor.js)\<close>

subsection \<open>Its pagination\<close>

text \<open>\<^verbatim>\<open>linkHeader.includes('rel="next"')\<close>.\<close>

fun js_includes :: "string \<Rightarrow> string \<Rightarrow> bool" where
  "js_includes [] needle = (needle = [])"
| "js_includes (c # cs) needle = (starts_with needle (c # cs) \<or> js_includes cs needle)"

text \<open>
  \<^verbatim>\<open>/<[^>]*page_info=([^>]+)>; rel="next"/\<close> on the run of characters between
  \<^verbatim>\<open><\<close> and the next \<^verbatim>\<open>>\<close>: the greedy \<^verbatim>\<open>[^>]*\<close> stops at the last
  \<^verbatim>\<open>page_info=\<close> of the run that still has a character after it, and the group is what
  follows.
\<close>

fun last_page_info :: "string \<Rightarrow> string option" where
  "last_page_info [] = None"
| "last_page_info (c # cs) =
     (case last_page_info cs of
        Some g \<Rightarrow> Some g
      | None \<Rightarrow>
          if starts_with ''page_info='' (c # cs) \<and> drop 10 (c # cs) \<noteq> []
          then Some (drop 10 (c # cs)) else None)"

definition match_page_info_here :: "string \<Rightarrow> string option" where
  "match_page_info_here s =
     (case s of
        [] \<Rightarrow> None
      | c # r \<Rightarrow>
          if c \<noteq> CHR ''<'' then None
          else
            (case last_page_info (takeWhile (\<lambda>x. x \<noteq> CHR ''>'') r) of
               None \<Rightarrow> None
             | Some g \<Rightarrow>
                 if starts_with (''>; '' @ rel_next) (dropWhile (\<lambda>x. x \<noteq> CHR ''>'') r)
                 then Some g else None))"

fun match_page_info :: "string \<Rightarrow> string option" where
  "match_page_info [] = None"
| "match_page_info (c # cs) =
     (case match_page_info_here (c # cs) of Some g \<Rightarrow> Some g | None \<Rightarrow> match_page_info cs)"

text \<open>Lines 74 to 81: the cursor of the next page, \<open>None\<close> when \<^verbatim>\<open>hasNextPage\<close> ends false.\<close>

definition next_page_info :: "string option \<Rightarrow> string option" where
  "next_page_info h =
     (case h of
        None \<Rightarrow> None
      | Some l \<Rightarrow> if l \<noteq> [] \<and> js_includes l rel_next then match_page_info l else None)"

text \<open>
  The loop \<^verbatim>\<open>while (hasNextPage)\<close> of its \<^verbatim>\<open>getProductsForBrand\<close> (lines 47 to 85): every
  request goes to the first URL, with the cursor appended once there is one
  (\<^verbatim>\<open>if (pageInfo) url += ...\<close>).
\<close>

definition cursor_url :: "string \<Rightarrow> string option \<Rightarrow> string" where
  "cursor_url base pageInfo =
     (case pageInfo of
        None \<Rightarrow> base
      | Some c \<Rightarrow> if c = [] then base else base @ ''&page_info='' @ c)"

partial_function (option) whileHasNextPage ::
  "(string \<Rightarrow> fetch_result) \<Rightarrow> string \<Rightarrow> string option \<Rightarrow> product list
     \<Rightarrow> (error + product list) option"
where
  "whileHasNextPage fetch base pageInfo allProducts =
     (case fetch (cursor_url base pageInfo) of
        Unreachable msg \<Rightarrow> Some (Inl (FetchError msg))
      | Response r \<Rightarrow>
          if \<not> response_ok r then Some (Inl (ApiError (status r) (statusText r)))
          else
            (case products_json r of
               None \<Rightarrow> Some (Inl InvalidJson)
             | Some d \<Rightarrow>
                 (case next_page_info (linkHeader r) of
                    None \<Rightarrow> Some (Inr (allProducts @ (case d of None \<Rightarrow> [] | Some ps \<Rightarrow> ps)))
                  | Some c \<Rightarrow>
                      whileHasNextPage fetch base (Some c)
                        (allProducts @ (case d of None \<Rightarrow> [] | Some ps \<Rightarrow> ps)))))"

declare whileHasNextPage.simps [code]

definition getProductsForBrand_monitor ::
  "(string \<Rightarrow> fetch_result) \<Rightarrow> config \<Rightarrow> string \<Rightarrow> (error + product list) option" where
  "getProductsForBrand_monitor fetch cfg vendor_name =
     whileHasNextPage fetch (products_url cfg vendor_name) None []"

text \<open>
  Its \<^verbatim>\<open>checkBrandStock\<close> (lines 88 to 129) returns \<^verbatim>\<open>null\<close> for a brand without
  products and the counts otherwise (the members \<^verbatim>\<open>vendor\<close> and \<^verbatim>\<open>productDetails\<close> of
  its result, which the pass only prints, are left out).
\<close>

definition checkBrandStock_monitor ::
  "(string \<Rightarrow> fetch_result) \<Rightarrow> config \<Rightarrow> string \<Rightarrow> (error + stock_status option) option" where
  "checkBrandStock_monitor fetch cfg vendor_name =
     (case getProductsForBrand_monitor fetch cfg vendor_name of
        None \<Rightarrow> None
      | Some (Inl e) \<Rightarrow> Some (Inl e)
      | Some (Inr products) \<Rightarrow>
          if length products = 0 then Some (Inr None)
          else
            (let total = int (length products);
                 oos = countOos 0 products
             in Some (Inr (Some \<lparr>allOOS = (total = oos), totalProducts = total,
                  oosProducts = oos, inStockProducts = total - oos\<rparr>))))"

subsection \<open>Its notifier and its pass\<close>

text \<open>
  Its \<^verbatim>\<open>sendEmail\<close> (lines 132 to 145) waits for the transport without a timer and
  swallows a rejection: \<open>Some True\<close> after a delivery, \<open>Some False\<close> after a logged error,
  \<open>None\<close> when the transport never settles.
\<close>

definition sendEmail_monitor :: "transport_run \<Rightarrow> bool option" where
  "sendEmail_monitor run =
     (case run of
        NeverSettles \<Rightarrow> None
      | Settles t d \<Rightarrow> (case d of Accepted mid \<Rightarrow> Some True | Refused msg code \<Rightarrow> Some False))"

text \<open>
  The loop of \<^verbatim>\<open>checkAllBrands\<close> (lines 155 to 210), with \<^verbatim>\<open>try\<close> inside the loop:
  an error of \<^verbatim>\<open>checkBrandStock\<close> is logged and the loop goes on. The arguments are
  \<^verbatim>\<open>previousState\<close> and the pair of \<^verbatim>\<open>currentState\<close> and the alerts sent so far;
  \<open>None\<close> is a pass that never reaches the end.
\<close>

fun forBrands_monitor ::
  "environment \<Rightarrow> config \<Rightarrow> string list \<Rightarrow> notification_store
     \<Rightarrow> notification_store \<times> (alert \<times> bool) list
     \<Rightarrow> (notification_store \<times> (alert \<times> bool) list) option" where
  "forBrands_monitor env cfg [] previousState cur = Some cur"
| "forBrands_monitor env cfg (brand # rest) previousState cur =
     (case checkBrandStock_monitor (catalog env) cfg brand of
        None \<Rightarrow> None
      | Some (Inl e) \<Rightarrow> forBrands_monitor env cfg rest previousState cur
      | Some (Inr None) \<Rightarrow> forBrands_monitor env cfg rest previousState cur
      | Some (Inr (Some stockStatus)) \<Rightarrow>
          (let currentState = (fst cur)(brand \<mapsto> (if allOOS stockStatus then OOS else IN_STOCK));
               previousBrandState = previousState brand
           in if allOOS stockStatus \<and> previousBrandState \<noteq> Some OOS then
                (case sendEmail_monitor (smtp env (AllOutOfStock brand stockStatus)) of
                   None \<Rightarrow> None
                 | Some delivered \<Rightarrow>
                     forBrands_monitor env cfg rest previousState
                       (currentState, snd cur @ [(AllOutOfStock brand stockStatus, delivered)]))
              else if \<not> allOOS stockStatus \<and> previousBrandState = Some OOS then
                (case sendEmail_monitor (smtp env (BackInStock brand stockStatus)) of
                   None \<Rightarrow> None
                 | Some delivered \<Rightarrow>
                     forBrands_monitor env cfg rest previousState
                       (currentState, snd cur @ [(BackInStock brand stockStatus, delivered)]))
              else forBrands_monitor env cfg rest previousState (currentState, snd cur)))"

text \<open>
  \<^verbatim>\<open>checkAllBrands\<close>: the state file is read, the loop runs from an empty
  \<^verbatim>\<open>currentState\<close>, and \<^verbatim>\<open>saveState(currentState)\<close> replaces the file (a failed write
  is logged and leaves the file as it was). The result is the file after the pass and the
  alerts sent.
\<close>

definition checkAllBrands ::
  "environment \<Rightarrow> config \<Rightarrow> notification_store
     \<Rightarrow> (notification_store \<times> (alert \<times> bool) list) option" where
  "checkAllBrands env cfg state_file =
     (case forBrands_monitor env cfg (BRANDS_TO_MONITOR cfg) state_file (Map.empty, []) of
        None \<Rightarrow> None
      | Some (currentState, log) \<Rightarrow>
          Some (if state_file_writable env then currentState else state_file, log))"

section \<open>The first prototype (unnamed/part_000, lines 1 to 135)\<close>

subsection \<open>Its vendor check and its notifier\<close>

text \<open>
  The comparison \<^verbatim>\<open>v.inventory_quantity <= 0\<close>: \<^verbatim>\<open>null\<close> is converted to 0 and compares
  true, \<^verbatim>\<open>undefined\<close> is converted to NaN and compares false.
\<close>

definition not_above_zero :: "quantity \<Rightarrow> bool" where
  "not_above_zero q = (case q of Missing \<Rightarrow> False | Null \<Rightarrow> True | Quantity n \<Rightarrow> n \<le> 0)"

text \<open>
  The prototype groups the whole catalog by vendor and decides for the products of one
  vendor (\<^verbatim>\<open>checkBrandsStock\<close>, lines 98 to 101) with
  \<^verbatim>\<open>products.every(prod => prod.variants.every(v => v.inventory_quantity <= 0))\<close>.
  Nothing is summed.
\<close>

definition allOOS_every :: "product list \<Rightarrow> bool" where
  "allOOS_every products =
     list_all (\<lambda>prod. list_all (\<lambda>v. not_above_zero (inventory_quantity v)) (variants prod))
       products"

text \<open>
  Its \<^verbatim>\<open>sendEmail\<close> (lines 72 to 81) awaits the transport with neither \<^verbatim>\<open>try\<close> nor
  timer: a rejection is thrown on (\<open>Inl\<close>), and a transport that never settles leaves it
  waiting (\<open>None\<close>).
\<close>

definition sendEmail_prototype :: "transport_run \<Rightarrow> (string + unit) option" where
  "sendEmail_prototype run =
     (case run of
        NeverSettles \<Rightarrow> None
      | Settles t d \<Rightarrow> (case d of Accepted mid \<Rightarrow> Some (Inr ()) | Refused msg code \<Rightarrow> Some (Inl msg)))"

subsection \<open>Its state file\<close>

text \<open>
  The state is kept in \<^verbatim>\<open>vendor-state.json\<close>. \<^verbatim>\<open>loadState\<close> (lines 29 to 34) gives the
  empty object when there is no file and parses the file otherwise, with no \<^verbatim>\<open>try\<close>: a
  file that is not JSON makes it throw (\<open>None\<close>).
\<close>

datatype state_file = NoFile | Garbled | Holds notification_store

definition loadState_prototype :: "state_file \<Rightarrow> notification_store option" where
  "loadState_prototype file =
     (case file of NoFile \<Rightarrow> Some Map.empty | Garbled \<Rightarrow> None | Holds state \<Rightarrow> Some state)"

text \<open>What can leave \<^verbatim>\<open>checkBrandsStock\<close> as an exception.\<close>

datatype thrown =
    RequestFailed string
  | StatusNotOk nat string
  | BodyNotJson
  | StateFileUnreadable
  | VendorOfUndefined
  | NotAFunction string
  | MailRejected string
  | StateFileNotWritten

subsection \<open>Its fetch of the catalog\<close>

text \<open>
  \<^verbatim>\<open>getAllProducts\<close> (lines 41 to 69) lists the products of every vendor. Its loop is the
  loop of the stand-alone monitor, with the same reading of the \<^verbatim>\<open>Link\<close> header, but it
  appends \<^verbatim>\<open>data.products\<close> as it is: for a body without this member \<^verbatim>\<open>concat\<close> appends
  the one element \<^verbatim>\<open>undefined\<close> (\<open>None\<close> in the list). The store is a constant of the
  file, taken as a parameter here.
\<close>

definition prototype_url :: "string \<Rightarrow> string" where
  "prototype_url store = ''https://'' @ store @ ''/admin/api/2024-10/products.json?limit=250''"

partial_function (option) whileHasNext ::
  "(string \<Rightarrow> fetch_result) \<Rightarrow> string \<Rightarrow> string option \<Rightarrow> product option list
     \<Rightarrow> (thrown + product option list) option"
where
  "whileHasNext fetch base pageInfo allProducts =
     (case fetch (cursor_url base pageInfo) of
        Unreachable msg \<Rightarrow> Some (Inl (RequestFailed msg))
      | Response r \<Rightarrow>
          if \<not> response_ok r then Some (Inl (StatusNotOk (status r) (statusText r)))
          else
            (case products_json r of
               None \<Rightarrow> Some (Inl BodyNotJson)
             | Some d \<Rightarrow>
                 (case next_page_info (linkHeader r) of
                    None \<Rightarrow>
                      Some (Inr (allProducts @ (case d of None \<Rightarrow> [None] | Some ps \<Rightarrow> map Some ps)))
                  | Some c \<Rightarrow>
                      whileHasNext fetch base (Some c)
                        (allProducts @ (case d of None \<Rightarrow> [None] | Some ps \<Rightarrow> map Some ps)))))"

declare whileHasNext.simps [code]

definition getAllProducts ::
  "(string \<Rightarrow> fetch_result) \<Rightarrow> string \<Rightarrow> (thrown + product option list) option" where
  "getAllProducts fetch store = whileHasNext fetch (prototype_url store) None []"

subsection \<open>The vendors of the catalog\<close>

text \<open>
  Lines 91 to 95: \<^verbatim>\<open>if (!vendors[p.vendor]) vendors[p.vendor] = []; vendors[p.vendor].push(p)\<close>.
  The object \<^verbatim>\<open>vendors\<close> is a list of its own members in the order of their creation.
  Reading the vendor of an element \<^verbatim>\<open>undefined\<close> throws. For a vendor named like a member
  of \<^verbatim>\<open>Object.prototype\<close> the lookup finds that member, which has no \<^verbatim>\<open>push\<close>, and the
  call throws.
\<close>

definition inherited_names :: "string list" where
  "inherited_names =
     [''constructor'', ''hasOwnProperty'', ''isPrototypeOf'', ''propertyIsEnumerable'',
      ''toLocaleString'', ''toString'', ''valueOf'', ''__proto__'', ''__defineGetter__'',
      ''__defineSetter__'', ''__lookupGetter__'', ''__lookupSetter__'']"

fun push_product :: "product \<Rightarrow> (string \<times> product list) list \<Rightarrow> (string \<times> product list) list" where
  "push_product p [] = [(vendor p, [p])]"
| "push_product p ((name, ps) # others) =
     (if name = vendor p then (name, ps @ [p]) # others else (name, ps) # push_product p others)"

fun groupByVendor ::
  "(string \<times> product list) list \<Rightarrow> product option list
     \<Rightarrow> thrown + (string \<times> product list) list" where
  "groupByVendor vendors [] = Inr vendors"
| "groupByVendor vendors (None # ps) = Inl VendorOfUndefined"
| "groupByVendor vendors (Some p # ps) =
     (if vendor p \<in> set inherited_names then Inl (NotAFunction (vendor p))
      else groupByVendor (push_product p vendors) ps)"

text \<open>
  \<^verbatim>\<open>Object.entries(vendors)\<close> lists the members whose names are array indices first, in
  ascending order, and then the other members in the order of their creation. A name is an
  array index when it is the decimal text of a number below \<open>2^32 - 1\<close>.
\<close>

fun digits_value :: "nat \<Rightarrow> string \<Rightarrow> nat" where
  "digits_value n [] = n"
| "digits_value n (c # cs) = digits_value (10 * n + (of_char c - 48)) cs"

definition array_index :: "string \<Rightarrow> nat option" where
  "array_index name =
     (let n = digits_value 0 name
      in if name \<noteq> [] \<and> list_all (\<lambda>c. 48 \<le> (of_char c :: nat) \<and> (of_char c :: nat) \<le> 57) name
            \<and> decimal n = name \<and> n < 4294967295
         then Some n else None)"

definition entries :: "(string \<times> 'a) list \<Rightarrow> (string \<times> 'a) list" where
  "entries members =
     sort_key (\<lambda>m. the (array_index (fst m))) (filter (\<lambda>m. array_index (fst m) \<noteq> None) members)
       @ filter (\<lambda>m. array_index (fst m) = None) members"

subsection \<open>Its pass\<close>

text \<open>
  The world around one pass of the prototype: the store and what its catalog answers, what
  the mail transport does with the alert of a kind about a vendor, and whether the state
  file can be written.
\<close>

record prototype_world =
  SHOPIFY_STORE :: string
  admin_api :: "string \<Rightarrow> fetch_result"
  mail :: "alert_kind \<Rightarrow> string \<Rightarrow> transport_run"
  writable :: bool

datatype finish = Returns | Throws thrown | Waits

text \<open>
  The loop over the vendors (lines 98 to 119). The arguments are the state that was loaded
  and the pair of \<^verbatim>\<open>newState\<close> and the alerts delivered so far. The new state of a vendor
  is noted in \<^verbatim>\<open>newState\<close> before the alert is sent; an exception of \<^verbatim>\<open>sendEmail\<close> leaves
  the loop and the function.
\<close>

fun forVendors ::
  "(alert_kind \<Rightarrow> string \<Rightarrow> transport_run) \<Rightarrow> notification_store
     \<Rightarrow> (string \<times> product list) list
     \<Rightarrow> notification_store \<times> (alert_kind \<times> string) list
     \<Rightarrow> notification_store \<times> (alert_kind \<times> string) list \<times> finish" where
  "forVendors transport state [] cur = (fst cur, snd cur, Returns)"
| "forVendors transport state ((name, products) # rest) cur =
     (let oos = allOOS_every products;
          newState = (fst cur)(name \<mapsto> (if oos then OOS else IN_STOCK))
      in if oos \<and> state name \<noteq> Some OOS then
           (case sendEmail_prototype (transport Depletion name) of
              None \<Rightarrow> (newState, snd cur, Waits)
            | Some (Inl msg) \<Rightarrow> (newState, snd cur, Throws (MailRejected msg))
            | Some (Inr u) \<Rightarrow>
                forVendors transport state rest (newState, snd cur @ [(Depletion, name)]))
         else if \<not> oos \<and> state name = Some OOS then
           (case sendEmail_prototype (transport Restock name) of
              None \<Rightarrow> (newState, snd cur, Waits)
            | Some (Inl msg) \<Rightarrow> (newState, snd cur, Throws (MailRejected msg))
            | Some (Inr u) \<Rightarrow>
                forVendors transport state rest (newState, snd cur @ [(Restock, name)]))
         else forVendors transport state rest (newState, snd cur))"

text \<open>
  \<^verbatim>\<open>checkBrandsStock\<close> (lines 84 to 123): the catalog is fetched, the state file is read,
  the products are grouped, the loop runs from an empty \<^verbatim>\<open>newState\<close>, and only then
  \<^verbatim>\<open>saveState(newState)\<close> (line 121) replaces the file. The result is the state file after
  the pass, the alerts delivered, and how the function ended: whatever is thrown before
  line 121 leaves the file as it was.
\<close>

definition checkBrandsStock ::
  "prototype_world \<Rightarrow> state_file \<Rightarrow> state_file \<times> (alert_kind \<times> string) list \<times> finish" where
  "checkBrandsStock w file =
     (case getAllProducts (admin_api w) (SHOPIFY_STORE w) of
        None \<Rightarrow> (file, [], Waits)
      | Some (Inl t) \<Rightarrow> (file, [], Throws t)
      | Some (Inr products) \<Rightarrow>
          (case loadState_prototype file of
             None \<Rightarrow> (file, [], Throws StateFileUnreadable)
           | Some state \<Rightarrow>
               (case groupByVendor [] products of
                  Inl t \<Rightarrow> (file, [], Throws t)
                | Inr vendors \<Rightarrow>
                    (case forVendors (mail w) state (entries vendors) (Map.empty, []) of
                       (newState, delivered, Returns) \<Rightarrow>
                         if writable w then (Holds newState, delivered, Returns)
                         else (file, delivered, Throws StateFileNotWritten)
                     | (newState, delivered, Throws t) \<Rightarrow> (file, delivered, Throws t)
                     | (newState, delivered, Waits) \<Rightarrow> (file, delivered, Waits)))))"

section \<open>Notions used in the statements\<close>

text \<open>
  The state that an alert of a kind announces, and the invariant that links the store with
  the log of a brand: the alerts of the brand alternate, and after a last alert the stored
  state is the one that this alert announced.
\<close>

definition announced :: "alert_kind \<Rightarrow> notification_state" where
  "announced k = (case k of Depletion \<Rightarrow> OOS | Restock \<Rightarrow> IN_STOCK)"

definition in_step :: "string \<Rightarrow> notification_store \<times> (alert \<times> email_result) list \<Rightarrow> bool" where
  "in_step b st =
     (distinct_adj (alerts_for b (snd st))
      \<and> (alerts_for b (snd st) = [] \<or> fst st b = Some (announced (last (alerts_for b (snd st))))))"

text \<open>
  A brand is quiet for a snapshot and a store when neither branch of the loop body applies
  to it.
\<close>

definition quiet :: "stock_status \<Rightarrow> notification_state option \<Rightarrow> bool" where
  "quiet stockStatus lastState =
     (\<not> (allOOS stockStatus \<and> lastState \<noteq> Some OOS)
      \<and> \<not> (\<not> allOOS stockStatus \<and> 0 < inStockProducts stockStatus \<and> lastState = Some OOS))"

text \<open>
  The schedule in which no two requests overlap: the handler of each request, numbered
  from \<open>i\<close> on, is woken until it is over (two waits for each brand are enough) before the
  next request arrives. And \<open>n\<close> runs of one handler in a row.
\<close>

fun one_by_one :: "config \<Rightarrow> nat \<Rightarrow> (environment \<times> request) list \<Rightarrow> event list" where
  "one_by_one cfg i [] = []"
| "one_by_one cfg i ((env, req) # later) =
     Arrives env req # replicate (2 * length (BRANDS_TO_MONITOR cfg)) (Wakes i)
       @ one_by_one cfg (Suc i) later"

fun resumes ::
  "nat \<Rightarrow> environment \<Rightarrow> config
     \<Rightarrow> handler \<times> notification_store \<times> (alert \<times> email_result) list
     \<Rightarrow> handler \<times> notification_store \<times> (alert \<times> email_result) list" where
  "resumes 0 env cfg x = x"
| "resumes (Suc n) env cfg x = resumes n env cfg (resume env cfg (fst x) (snd x))"

text \<open>
  The pages of a catalog as the specification speaks of them: \<open>visits fetch u rs r\<close> says
  that a walk from the URL \<open>u\<close> passes through the pages \<open>rs\<close>, each a success with a body
  and a cursor to the next, and then stands at the answer \<open>r\<close>.
\<close>

inductive visits :: "(string \<Rightarrow> fetch_result) \<Rightarrow> string \<Rightarrow> response list \<Rightarrow> response \<Rightarrow> bool" where
  arrive: "fetch u = Response r \<Longrightarrow> u \<noteq> [] \<Longrightarrow> visits fetch u [] r"
| follow: "fetch u = Response r \<Longrightarrow> u \<noteq> [] \<Longrightarrow> response_ok r \<Longrightarrow> products_json r = Some d
     \<Longrightarrow> next_url (linkHeader r) = Some u' \<Longrightarrow> visits fetch u' rs r'
     \<Longrightarrow> visits fetch u (r # rs) r'"

definition page_products :: "response \<Rightarrow> product list" where
  "page_products r = (case products_json r of Some (Some ps) \<Rightarrow> ps | _ \<Rightarrow> [])"

text \<open>The same walk for the stand-alone monitor, from a cursor to the next.\<close>

inductive visits_monitor ::
  "(string \<Rightarrow> fetch_result) \<Rightarrow> string \<Rightarrow> string option \<Rightarrow> response list \<Rightarrow> response \<Rightarrow> bool" where
  arrive: "fetch (cursor_url base pageInfo) = Response r \<Longrightarrow> visits_monitor fetch base pageInfo [] r"
| follow: "fetch (cursor_url base pageInfo) = Response r \<Longrightarrow> response_ok r
     \<Longrightarrow> products_json r = Some d \<Longrightarrow> next_page_info (linkHeader r) = Some c
     \<Longrightarrow> visits_monitor fetch base (Some c) rs r'
     \<Longrightarrow> visits_monitor fetch base pageInfo (r # rs) r'"

section \<open>Concrete worlds for the examples\<close>

definition example_config :: config where
  "example_config =
     \<lparr>SHOPIFY_SHOP = ''example.myshopify.com'', SHOPIFY_WEBHOOK_SECRET = ''s3cr3t'',
      BRANDS_TO_MONITOR = [''Acme'', ''Bolt'']\<rparr>"

definition item :: "string \<Rightarrow> string \<Rightarrow> int list \<Rightarrow> product" where
  "item v t qs =
     \<lparr>vendor = v, title = t, variants = map (\<lambda>q. \<lparr>inventory_quantity = Quantity q\<rparr>) qs\<rparr>"

definition page :: "product list \<Rightarrow> string option \<Rightarrow> fetch_result" where
  "page ps l =
     Response \<lparr>status = 200, statusText = ''OK'', products_json = Some (Some ps), linkHeader = l\<rparr>"

definition failure :: "nat \<Rightarrow> string \<Rightarrow> fetch_result" where
  "failure code reason =
     Response \<lparr>status = code, statusText = reason, products_json = None, linkHeader = None\<rparr>"

text \<open>A catalog given by a table of URLs; every other URL answers 404.\<close>

definition serving :: "(string \<times> fetch_result) list \<Rightarrow> string \<Rightarrow> fetch_result" where
  "serving table u = (case map_of table u of Some r \<Rightarrow> r | None \<Rightarrow> failure 404 ''Not Found'')"

definition link_to_next :: "string \<Rightarrow> string" where
  "link_to_next u = ''<'' @ u @ ''>; '' @ rel_next"

text \<open>Acme sold out, Bolt with stock; a transport that delivers at once.\<close>

definition acme_sold_out :: "string \<Rightarrow> fetch_result" where
  "acme_sold_out =
     serving
       [(products_url example_config ''Acme'',
           page [item ''Acme'' ''anvil'' [0, 0], item ''Acme'' ''rocket'' [- 3, 2]] None),
        (products_url example_config ''Bolt'', page [item ''Bolt'' ''nut'' [5]] None)]"

definition acme_restocked :: "string \<Rightarrow> fetch_result" where
  "acme_restocked =
     serving
       [(products_url example_config ''Acme'',
           page [item ''Acme'' ''anvil'' [4, 0], item ''Acme'' ''rocket'' [- 3, 2]] None),
        (products_url example_config ''Bolt'', page [item ''Bolt'' ''nut'' [5]] None)]"

definition delivers :: "alert \<Rightarrow> transport_run" where
  "delivers a = Settles 120 (Accepted ''<1@example>'')"

definition hangs :: "alert \<Rightarrow> transport_run" where
  "hangs a = NeverSettles"

definition world :: "(string \<Rightarrow> fetch_result) \<Rightarrow> (alert \<Rightarrow> transport_run) \<Rightarrow> environment" where
  "world c t = \<lparr>catalog = c, smtp = t, state_file_writable = True\<rparr>"

text \<open>
  A request whose parsed body is \<^verbatim>\<open>{"a":1}\<close> and whose header is the HMAC of exactly
  these bytes, so that the server accepts it.
\<close>

definition accepted_request :: request where
  "accepted_request =
     \<lparr>hmac_header = Some ''1CknQ0BJ4LjHPOiHBiI4zBxrtmRL/mbmbY3Q8wuFZ54='',
      rawBody = Some (''{'' @ [CHR 0x22] @ ''a'' @ [CHR 0x22] @ '':1}''),
      body = JObject [(''a'', JNumber 1)]\<rparr>"

text \<open>A catalog in which Bolt has no product at all, and one in which Acme's listing fails.\<close>

definition bolt_empty :: "string \<Rightarrow> fetch_result" where
  "bolt_empty =
     serving
       [(products_url example_config ''Acme'', page [item ''Acme'' ''anvil'' [0, 0]] None),
        (products_url example_config ''Bolt'', page [] None)]"

definition acme_unavailable :: "string \<Rightarrow> fetch_result" where
  "acme_unavailable =
     serving
       [(products_url example_config ''Acme'', failure 500 ''Internal Server Error''),
        (products_url example_config ''Bolt'', page [item ''Bolt'' ''nut'' [0]] None)]"

definition sold_out :: stock_status where
  "sold_out = \<lparr>allOOS = True, totalProducts = 2, oosProducts = 2, inStockProducts = 0\<rparr>"

definition some_stock :: stock_status where
  "some_stock = \<lparr>allOOS = False, totalProducts = 2, oosProducts = 1, inStockProducts = 1\<rparr>"

text \<open>
  A catalog whose listing of Acme has two pages, and one whose second page is refused.
\<close>

definition second_page :: string where
  "second_page = ''https://example.myshopify.com/admin/api/2024-10/products.json?limit=250&page_info=abc''"

definition two_pages :: "string \<Rightarrow> fetch_result" where
  "two_pages =
     serving
       [(products_url example_config ''Acme'',
           page [item ''Acme'' ''anvil'' [0]] (Some (link_to_next second_page))),
        (second_page, page [item ''Acme'' ''rocket'' [2], item ''Acme'' ''magnet'' [1]] None)]"

definition second_page_refused :: "string \<Rightarrow> fetch_result" where
  "second_page_refused =
     serving
       [(products_url example_config ''Acme'',
           page [item ''Acme'' ''anvil'' [0]] (Some (link_to_next second_page))),
        (second_page, failure 429 ''Too Many Requests'')]"

text \<open>
  A request whose body arrived as \<^verbatim>\<open>{"a": 1}\<close>, with a space after the colon, signed
  over exactly these bytes; and one with the same body and the signature of the bytes
  \<^verbatim>\<open>{"a":1}\<close>, which never arrived.
\<close>

definition spaced_body :: string where
  "spaced_body = ''{'' @ [CHR 0x22] @ ''a'' @ [CHR 0x22] @ '': 1}''"

definition signed_request :: request where
  "signed_request =
     \<lparr>hmac_header = Some ''AdgXmT6IbvXmRPsBTEaR6cO5GnQ+9fXFUJ+7iiuOJ2o='',
      rawBody = Some spaced_body,
      body = JObject [(''a'', JNumber 1)]\<rparr>"

definition missigned_request :: request where
  "missigned_request =
     \<lparr>hmac_header = Some ''1CknQ0BJ4LjHPOiHBiI4zBxrtmRL/mbmbY3Q8wuFZ54='',
      rawBody = Some spaced_body,
      body = JObject [(''a'', JNumber 1)]\<rparr>"

text \<open>A catalog whose every page points at the same next page.\<close>

definition circular :: "string \<Rightarrow> fetch_result" where
  "circular u = page [] (Some (link_to_next ''https://example.myshopify.com/again''))"

text \<open>
  For the first prototype: the world of a store whose catalog lists the given products on
  one page, with a given mail transport; a transport that delivers, and one that refuses
  the login.
\<close>

definition shop :: "product list \<Rightarrow> (alert_kind \<Rightarrow> string \<Rightarrow> transport_run) \<Rightarrow> prototype_world" where
  "shop ps t =
     \<lparr>SHOPIFY_STORE = ''example.myshopify.com'',
      admin_api = serving [(prototype_url ''example.myshopify.com'', page ps None)],
      mail = t, writable = True\<rparr>"

definition accepting :: "alert_kind \<Rightarrow> string \<Rightarrow> transport_run" where
  "accepting k name = Settles 120 (Accepted ''<1@example>'')"

definition refusing :: "alert_kind \<Rightarrow> string \<Rightarrow> transport_run" where
  "refusing k name = Settles 300 (Refused ''Invalid login'' (Some ''EAUTH''))"

text \<open>
  A transport of the prototype that refuses the mail about Bolt only, and one that never
  answers; a catalog in which both brands are sold out.
\<close>

definition bolt_refused :: "alert_kind \<Rightarrow> string \<Rightarrow> transport_run" where
  "bolt_refused k name =
     (if name = ''Bolt'' then Settles 300 (Refused ''Invalid login'' (Some ''EAUTH''))
      else Settles 120 (Accepted ''<1@example>''))"

definition silent :: "alert_kind \<Rightarrow> string \<Rightarrow> transport_run" where
  "silent k name = NeverSettles"

definition both_sold_out :: "string \<Rightarrow> fetch_result" where
  "both_sold_out =
     serving
       [(products_url example_config ''Acme'', page [item ''Acme'' ''anvil'' [0, 0]] None),
        (products_url example_config ''Bolt'', page [item ''Bolt'' ''nut'' [0]] None)]"

section \<open>Properties of the aggregation\<close>

lemma sumVariants_acc: "sumVariants a vs = a + sumVariants 0 vs"
proof (induction vs arbitrary: a)
  case Nil
  show ?case by simp
next
  case (Cons v vs)
  have "sumVariants a (v # vs) = sumVariants (a + quantity_or_zero v) vs" by simp
  also have "\<dots> = (a + quantity_or_zero v) + sumVariants 0 vs" by (rule Cons.IH)
  also have "\<dots> = a + sumVariants (0 + quantity_or_zero v) vs"
    using Cons.IH [of "0 + quantity_or_zero v"] by simp
  finally show ?case by simp
qed

lemma quantity_or_zero_eq:
  "quantity_or_zero v = (case inventory_quantity v of Quantity q \<Rightarrow> q | _ \<Rightarrow> 0)"
  by (simp add: quantity_or_zero_def split: quantity.split)

lemma productTotalStock_sum:
  "productTotalStock p =
     sum_list (map (\<lambda>v. case inventory_quantity v of Quantity q \<Rightarrow> q | _ \<Rightarrow> 0) (variants p))"
proof -
  have "sumVariants 0 vs = sum_list (map quantity_or_zero vs)" for vs
  proof (induction vs)
    case Nil
    show ?case by simp
  next
    case (Cons v vs)
    then show ?case using sumVariants_acc [of "quantity_or_zero v" vs] by simp
  qed
  then show ?thesis
    by (simp add: productTotalStock_def quantity_or_zero_eq [abs_def])
qed

lemma countOos_acc: "countOos a ps = a + countOos 0 ps"
proof (induction ps arbitrary: a)
  case Nil
  show ?case by simp
next
  case (Cons p ps)
  show ?case
    using Cons.IH [of "a + 1"] Cons.IH [of a] Cons.IH [of 1] by simp
qed

lemma countOos_filter:
  "countOos 0 ps = int (length (filter (\<lambda>p. productTotalStock p \<le> 0) ps))"
proof (induction ps)
  case Nil
  show ?case by simp
next
  case (Cons p ps)
  then show ?case using countOos_acc [of 1 ps] by simp
qed

lemma length_filter_split:
  "int (length ps) - int (length (filter (\<lambda>p. productTotalStock p \<le> 0) ps))
     = int (length (filter (\<lambda>p. 0 < productTotalStock p) ps))"
proof -
  have "length (filter (\<lambda>p. productTotalStock p \<le> 0) ps)
          + length (filter (\<lambda>p. \<not> productTotalStock p \<le> 0) ps) = length ps"
    by (rule sum_length_filter_compl)
  moreover have "(\<lambda>p. \<not> productTotalStock p \<le> 0) = (\<lambda>p. 0 < productTotalStock p)"
    by (simp add: fun_eq_iff not_le)
  ultimately show ?thesis by simp
qed

lemma length_filter_all: "(length (filter P xs) = length xs) = list_all P xs"
proof
  assume same: "length (filter P xs) = length xs"
  show "list_all P xs"
  proof (rule ccontr)
    assume "\<not> list_all P xs"
    then obtain x where "x \<in> set xs" and "\<not> P x"
      by (auto simp add: list_all_iff)
    then have "length (filter P xs) < length xs"
      by (rule length_filter_less)
    with same show False by simp
  qed
next
  assume "list_all P xs"
  then have "filter P xs = xs"
    by (simp add: list_all_iff)
  then show "length (filter P xs) = length xs" by simp
qed

lemma aggregate_counts:
  "totalProducts (aggregate ps) = int (length ps)"
  "oosProducts (aggregate ps) = int (length (filter (\<lambda>p. productTotalStock p \<le> 0) ps))"
  "inStockProducts (aggregate ps) = int (length (filter (\<lambda>p. 0 < productTotalStock p) ps))"
  "allOOS (aggregate ps) = (ps \<noteq> [] \<and> list_all (\<lambda>p. productTotalStock p \<le> 0) ps)"
proof -
  show "totalProducts (aggregate ps) = int (length ps)"
    by (simp add: aggregate_def Let_def)
  show "oosProducts (aggregate ps) = int (length (filter (\<lambda>p. productTotalStock p \<le> 0) ps))"
    by (simp add: aggregate_def Let_def countOos_filter)
  show "inStockProducts (aggregate ps) = int (length (filter (\<lambda>p. 0 < productTotalStock p) ps))"
    using length_filter_split [of ps] by (simp add: aggregate_def Let_def countOos_filter)
  have "(length ps = length (filter (\<lambda>p. productTotalStock p \<le> 0) ps))
          = list_all (\<lambda>p. productTotalStock p \<le> 0) ps"
    using length_filter_all [of "\<lambda>p. productTotalStock p \<le> 0" ps] by auto
  then show "allOOS (aggregate ps) = (ps \<noteq> [] \<and> list_all (\<lambda>p. productTotalStock p \<le> 0) ps)"
    by (auto simp add: aggregate_def Let_def countOos_filter)
qed

text \<open>
  C7. Every snapshot that the aggregation returns satisfies
  \<open>oosProducts + inStockProducts = totalProducts\<close>; \<open>allOOS\<close> holds exactly when there is
  at least one product and every product is out of stock; the empty list of products
  never gives \<open>allOOS\<close>.
\<close>

theorem aggregate_snapshot_invariant:
  "oosProducts (aggregate ps) + inStockProducts (aggregate ps) = totalProducts (aggregate ps)
   \<and> allOOS (aggregate ps)
       = (0 < totalProducts (aggregate ps) \<and> oosProducts (aggregate ps) = totalProducts (aggregate ps))
   \<and> totalProducts (aggregate ps) = int (length ps)
   \<and> \<not> allOOS (aggregate [])"
  by (auto simp add: aggregate_def Let_def)

text \<open>
  The rule of the first prototype is stricter: a product that it takes for out of stock
  has a sum of at most 0, and so has every product of a vendor that it takes for sold out.
\<close>

lemma every_variant_implies_sum:
  assumes "list_all (\<lambda>v. not_above_zero (inventory_quantity v)) (variants p)"
  shows "productTotalStock p \<le> 0"
proof -
  have "x \<le> 0"
    if "x \<in> set (map (\<lambda>v. case inventory_quantity v of Quantity q \<Rightarrow> q | _ \<Rightarrow> 0) (variants p))"
    for x
  proof -
    from that obtain v where v: "v \<in> set (variants p)"
      and x: "x = (case inventory_quantity v of Quantity q \<Rightarrow> q | _ \<Rightarrow> 0)"
      by auto
    from assms v have "not_above_zero (inventory_quantity v)"
      by (simp add: list_all_iff)
    with x show ?thesis
      by (simp add: not_above_zero_def split: quantity.splits)
  qed
  then show ?thesis
    unfolding productTotalStock_sum by (rule sum_list_nonpos)
qed

lemma allOOS_every_implies_allOOS:
  assumes "allOOS_every ps" and "ps \<noteq> []"
  shows "allOOS (aggregate ps)"
proof -
  have "list_all (\<lambda>p. productTotalStock p \<le> 0) ps"
    using assms(1) every_variant_implies_sum
    by (simp add: allOOS_every_def list_all_iff)
  with assms(2) show ?thesis
    by (simp add: aggregate_counts)
qed

text \<open>The fetch of the prototype in a store whose catalog has one page.\<close>

lemma getAllProducts_shop:
  "getAllProducts (admin_api (shop ps t)) (SHOPIFY_STORE (shop ps t)) = Some (Inr (map Some ps))"
  "mail (shop ps t) = t" "writable (shop ps t)"
proof -
  have "whileHasNext (admin_api (shop ps t)) (prototype_url ''example.myshopify.com'') None []
      = Some (Inr (map Some ps))"
    by (subst whileHasNext.simps)
      (simp add: shop_def serving_def page_def cursor_url_def response_ok_def next_page_info_def)
  then show "getAllProducts (admin_api (shop ps t)) (SHOPIFY_STORE (shop ps t))
      = Some (Inr (map Some ps))"
    by (simp add: getAllProducts_def shop_def)
  show "mail (shop ps t) = t" "writable (shop ps t)"
    by (simp_all add: shop_def)
qed

text \<open>
  C4, as the claim states it, fails on the first prototype: the quantities \<open>[-3, 2]\<close> add
  up to \<open>-1\<close>, and yet the prototype does not take the vendor of this one product for sold
  out; its pass files the vendor as \<open>IN_STOCK\<close>.
\<close>

theorem every_variant_rule_counterexample:
  "productTotalStock (item ''Acme'' ''rocket'' [- 3, 2]) = - 1
   \<and> allOOS (aggregate [item ''Acme'' ''rocket'' [- 3, 2]])
   \<and> \<not> allOOS_every [item ''Acme'' ''rocket'' [- 3, 2]]
   \<and> checkBrandsStock (shop [item ''Acme'' ''rocket'' [- 3, 2]] accepting) NoFile
       = (Holds [''Acme'' \<mapsto> IN_STOCK], [], Returns)"
proof -
  have "array_index ''Acme'' = None"
    by (simp add: array_index_def)
  then show ?thesis
    by (simp add: item_def aggregate_counts productTotalStock_sum allOOS_every_def
        not_above_zero_def checkBrandsStock_def getAllProducts_shop loadState_prototype_def
        inherited_names_def entries_def)
qed

text \<open>
  C4, amended. In \<^verbatim>\<open>checkBrandStock\<close> of server.js the stock of a product is the sum of
  the quantities of its variants, a missing or \<^verbatim>\<open>null\<close> quantity counting as 0, and the
  snapshot counts a product as out of stock exactly when that sum is at most 0: the
  quantities \<open>[-3, 2]\<close> and \<open>[0]\<close> make a product out of stock, \<open>[1]\<close> makes it in stock.
  The first prototype does not sum: it takes the products of a vendor for sold out exactly
  when every variant of every product has a quantity that is at most 0 (\<^verbatim>\<open>null\<close>
  included, a missing quantity not). So \<open>[-3, 2]\<close> is in stock there, \<open>[0]\<close> out of stock
  and \<open>[1]\<close> in stock; and what the prototype takes for sold out, the sum takes for sold
  out as well.
\<close>

theorem out_of_stock_rules:
  "productTotalStock p =
     sum_list (map (\<lambda>v. case inventory_quantity v of Quantity q \<Rightarrow> q | _ \<Rightarrow> 0) (variants p))
   \<and> oosProducts (aggregate ps) = int (length (filter (\<lambda>p. productTotalStock p \<le> 0) ps))
   \<and> inStockProducts (aggregate ps) = int (length (filter (\<lambda>p. 0 < productTotalStock p) ps))
   \<and> oosProducts (aggregate [item ''Acme'' ''a'' [- 3, 2]]) = 1
   \<and> oosProducts (aggregate [item ''Acme'' ''b'' [0]]) = 1
   \<and> oosProducts (aggregate [item ''Acme'' ''c'' [1]]) = 0
   \<and> oosProducts (aggregate [\<lparr>vendor = ''Acme'', title = ''d'', variants =
         [\<lparr>inventory_quantity = Missing\<rparr>, \<lparr>inventory_quantity = Null\<rparr>,
          \<lparr>inventory_quantity = Quantity 0\<rparr>]\<rparr>]) = 1
   \<and> allOOS_every ps
       = (\<forall>p \<in> set ps. \<forall>v \<in> set (variants p). not_above_zero (inventory_quantity v))
   \<and> not_above_zero (Quantity n) = (n \<le> 0) \<and> not_above_zero Null \<and> \<not> not_above_zero Missing
   \<and> \<not> allOOS_every [item ''Acme'' ''a'' [- 3, 2]]
   \<and> allOOS_every [item ''Acme'' ''b'' [0]]
   \<and> \<not> allOOS_every [item ''Acme'' ''c'' [1]]
   \<and> (allOOS_every ps \<and> ps \<noteq> [] \<longrightarrow> allOOS (aggregate ps))"
proof -
  have sums: "productTotalStock p =
     sum_list (map (\<lambda>v. case inventory_quantity v of Quantity q \<Rightarrow> q | _ \<Rightarrow> 0) (variants p))"
    by (rule productTotalStock_sum)
  have counts: "oosProducts (aggregate ps) = int (length (filter (\<lambda>p. productTotalStock p \<le> 0) ps))"
    "inStockProducts (aggregate ps) = int (length (filter (\<lambda>p. 0 < productTotalStock p) ps))"
    by (rule aggregate_counts)+
  have examples: "oosProducts (aggregate [item ''Acme'' ''a'' [- 3, 2]]) = 1"
    "oosProducts (aggregate [item ''Acme'' ''b'' [0]]) = 1"
    "oosProducts (aggregate [item ''Acme'' ''c'' [1]]) = 0"
    "oosProducts (aggregate [\<lparr>vendor = ''Acme'', title = ''d'', variants =
         [\<lparr>inventory_quantity = Missing\<rparr>, \<lparr>inventory_quantity = Null\<rparr>,
          \<lparr>inventory_quantity = Quantity 0\<rparr>]\<rparr>]) = 1"
    by (simp_all add: item_def aggregate_counts productTotalStock_sum)
  have every: "allOOS_every ps
       = (\<forall>p \<in> set ps. \<forall>v \<in> set (variants p). not_above_zero (inventory_quantity v))"
    by (simp add: allOOS_every_def list_all_iff)
  have compare: "not_above_zero (Quantity n) = (n \<le> 0)" "not_above_zero Null"
    "\<not> not_above_zero Missing"
    by (simp_all add: not_above_zero_def)
  have prototype: "\<not> allOOS_every [item ''Acme'' ''a'' [- 3, 2]]"
    "allOOS_every [item ''Acme'' ''b'' [0]]" "\<not> allOOS_every [item ''Acme'' ''c'' [1]]"
    by (simp_all add: item_def allOOS_every_def not_above_zero_def)
  have stricter: "allOOS_every ps \<and> ps \<noteq> [] \<longrightarrow> allOOS (aggregate ps)"
    using allOOS_every_implies_allOOS by blast
  show ?thesis
    using sums counts examples every compare prototype stricter by blast
qed

theorem out_of_stock_rules_witness:
  "allOOS_every [item ''Acme'' ''b'' [0], item ''Acme'' ''e'' [- 2, 0]]
   \<and> [item ''Acme'' ''b'' [0], item ''Acme'' ''e'' [- 2, 0]] \<noteq> []
   \<and> allOOS (aggregate [item ''Acme'' ''b'' [0], item ''Acme'' ''e'' [- 2, 0]])"
proof -
  have "allOOS_every [item ''Acme'' ''b'' [0], item ''Acme'' ''e'' [- 2, 0]]"
    by (simp add: item_def allOOS_every_def not_above_zero_def)
  then show ?thesis
    using out_of_stock_rules
      [of "item ''Acme'' ''b'' [0]" "[item ''Acme'' ''b'' [0], item ''Acme'' ''e'' [- 2, 0]]" 0]
    by simp
qed

section \<open>Properties of the webhook reconciler\<close>

subsection \<open>The three cases of one brand\<close>

lemma reconcileBrand_depleted:
  assumes "allOOS st" and "s b \<noteq> Some OOS"
  shows "reconcileBrand transport b st (s, log)
           = (s(b \<mapsto> OOS),
              log @ [(AllOutOfStock b st, sendEmail (transport (AllOutOfStock b st)))])"
  using assms by (simp add: reconcileBrand_def Let_def)

lemma reconcileBrand_restocked:
  assumes "\<not> allOOS st" and "0 < inStockProducts st" and "s b = Some OOS"
  shows "reconcileBrand transport b st (s, log)
           = (s(b \<mapsto> IN_STOCK),
              log @ [(BackInStock b st, sendEmail (transport (BackInStock b st)))])"
  using assms by (simp add: reconcileBrand_def Let_def)

lemma reconcileBrand_silent:
  assumes "\<not> (allOOS st \<and> s b \<noteq> Some OOS)"
    and "\<not> (\<not> allOOS st \<and> 0 < inStockProducts st \<and> s b = Some OOS)"
  shows "reconcileBrand transport b st (s, log) = (s, log)"
  using assms by (auto simp add: reconcileBrand_def)

lemma reconcileBrand_cases:
  obtains
    (depleted) "allOOS st" and "s b \<noteq> Some OOS"
      and "reconcileBrand transport b st (s, log)
             = (s(b \<mapsto> OOS),
                log @ [(AllOutOfStock b st, sendEmail (transport (AllOutOfStock b st)))])"
  | (restocked) "\<not> allOOS st" and "0 < inStockProducts st" and "s b = Some OOS"
      and "reconcileBrand transport b st (s, log)
             = (s(b \<mapsto> IN_STOCK),
                log @ [(BackInStock b st, sendEmail (transport (BackInStock b st)))])"
  | (silent) "reconcileBrand transport b st (s, log) = (s, log)"
proof (cases "allOOS st \<and> s b \<noteq> Some OOS")
  case True
  then show ?thesis using depleted reconcileBrand_depleted by blast
next
  case no_depletion: False
  show ?thesis
  proof (cases "\<not> allOOS st \<and> 0 < inStockProducts st \<and> s b = Some OOS")
    case True
    then show ?thesis using restocked reconcileBrand_restocked by blast
  next
    case False
    with no_depletion show ?thesis using silent reconcileBrand_silent by blast
  qed
qed

text \<open>The store never depends on what the transport does with an alert.\<close>

lemma reconcileBrand_store_any_transport:
  "fst (reconcileBrand transport b st (s, log)) = fst (reconcileBrand transport' b st (s, log'))"
  by (simp add: reconcileBrand_def Let_def)

lemma reconcileBrand_alerts_any_transport:
  "map fst (snd (reconcileBrand transport b st (s, log)))
     = map fst (snd (reconcileBrand transport' b st (s, log)))"
  by (simp add: reconcileBrand_def Let_def)

text \<open>Another brand's entry is not touched, and another brand's alerts are not added to.\<close>

lemma reconcileBrand_other_brand:
  assumes "b' \<noteq> b"
  shows "fst (reconcileBrand transport b st (s, log)) b' = s b'"
    and "alerts_for b' (snd (reconcileBrand transport b st (s, log))) = alerts_for b' log"
  using assms by (cases rule: reconcileBrand_cases [of st s b transport log];
      simp add: alerts_for_def alerts_about_def)+

subsection \<open>The alerts of a brand alternate\<close>

lemma alerts_for_append: "alerts_for b (xs @ ys) = alerts_for b xs @ alerts_for b ys"
  by (simp add: alerts_for_def alerts_about_def)

lemma in_step_start: "in_step b (s, [])"
  by (simp add: in_step_def alerts_for_def alerts_about_def)

lemma in_step_one_more:
  assumes "in_step b (s, l)"
    and "alerts_for b l = [] \<or> last (alerts_for b l) \<noteq> k"
    and "alerts_for b new = [k]"
    and "s' b = Some (announced k)"
  shows "in_step b (s', l @ new)"
proof -
  have "distinct_adj (alerts_for b l)"
    using assms(1) by (simp add: in_step_def)
  then have "distinct_adj (alerts_for b l @ [k])"
    using assms(2) by (auto simp add: distinct_adj_append_iff)
  then show ?thesis
    using assms(3,4) by (simp add: in_step_def alerts_for_append)
qed

lemma in_step_reconcileBrand:
  assumes "in_step b (s, pre @ log)"
  shows "in_step b (fst (reconcileBrand transport brand st (s, log)),
                    pre @ snd (reconcileBrand transport brand st (s, log)))"
proof (cases "brand = b")
  case False
  then show ?thesis
    using assms reconcileBrand_other_brand [of b brand transport st s log]
    by (simp add: in_step_def alerts_for_append)
next
  case same: True
  show ?thesis
  proof (cases rule: reconcileBrand_cases [of st s b transport log])
    case depleted
    have "alerts_for b (pre @ log) = [] \<or> last (alerts_for b (pre @ log)) \<noteq> Depletion"
      using assms depleted(2) by (auto simp add: in_step_def announced_def)
    moreover have "alerts_for b [(AllOutOfStock b st, sendEmail (transport (AllOutOfStock b st)))]
                     = [Depletion]"
      by (simp add: alerts_for_def alerts_about_def)
    moreover have "(s(b \<mapsto> OOS)) b = Some (announced Depletion)"
      by (simp add: announced_def)
    ultimately have "in_step b (s(b \<mapsto> OOS),
        (pre @ log) @ [(AllOutOfStock b st, sendEmail (transport (AllOutOfStock b st)))])"
      using assms by (rule in_step_one_more [rotated])
    then show ?thesis using same depleted(3) by simp
  next
    case restocked
    have "alerts_for b (pre @ log) = [] \<or> last (alerts_for b (pre @ log)) \<noteq> Restock"
      using assms restocked(3) by (auto simp add: in_step_def announced_def)
    moreover have "alerts_for b [(BackInStock b st, sendEmail (transport (BackInStock b st)))]
                     = [Restock]"
      by (simp add: alerts_for_def alerts_about_def)
    moreover have "(s(b \<mapsto> IN_STOCK)) b = Some (announced Restock)"
      by (simp add: announced_def)
    ultimately have "in_step b (s(b \<mapsto> IN_STOCK),
        (pre @ log) @ [(BackInStock b st, sendEmail (transport (BackInStock b st)))])"
      using assms by (rule in_step_one_more [rotated])
    then show ?thesis using same restocked(4) by simp
  next
    case silent
    then show ?thesis using assms same by simp
  qed
qed

lemma in_step_forBrands:
  assumes "in_step b (s, pre @ log)"
  shows "in_step b (lastNotificationState (forBrands env cfg brands (s, log)),
                    pre @ sent (forBrands env cfg brands (s, log)))"
  using assms
proof (induction brands arbitrary: s log)
  case Nil
  then show ?case by simp
next
  case (Cons brand rest)
  show ?case
  proof (cases "checkBrandStock (catalog env) cfg brand")
    case None
    then show ?thesis using Cons.prems by simp
  next
    case (Some outcome)
    show ?thesis
    proof (cases outcome)
      case (Inl e)
      then show ?thesis using Some Cons.prems by simp
    next
      case (Inr stockStatus)
      obtain s' log' where step: "reconcileBrand (smtp env) brand stockStatus (s, log) = (s', log')"
        by (cases "reconcileBrand (smtp env) brand stockStatus (s, log)")
      have "in_step b (s', pre @ log')"
        using in_step_reconcileBrand [OF Cons.prems, of "smtp env" brand stockStatus] step by simp
      then have "in_step b (lastNotificationState (forBrands env cfg rest (s', log')),
                            pre @ sent (forBrands env cfg rest (s', log')))"
        by (rule Cons.IH)
      then show ?thesis using Some Inr step by simp
    qed
  qed
qed

lemma in_step_webhook_inventory:
  assumes "in_step b (s, pre)"
  shows "in_step b (lastNotificationState (snd (webhook_inventory env cfg req s)),
                    pre @ sent (snd (webhook_inventory env cfg req s)))"
proof (cases "verifyWebhook cfg req")
  case False
  then show ?thesis using assms by (simp add: webhook_inventory_def)
next
  case True
  have "in_step b (s, pre @ [])" using assms by simp
  then have "in_step b (lastNotificationState (forBrands env cfg (BRANDS_TO_MONITOR cfg) (s, [])),
                        pre @ sent (forBrands env cfg (BRANDS_TO_MONITOR cfg) (s, [])))"
    by (rule in_step_forBrands)
  then show ?thesis using True by (simp add: webhook_inventory_def)
qed

lemma in_step_serve:
  assumes "in_step b st"
  shows "in_step b (serve cfg events st)"
  using assms
proof (induction events arbitrary: st)
  case Nil
  then show ?case by simp
next
  case (Cons event later)
  obtain env req where event: "event = (env, req)" by (cases event)
  obtain s pre where st: "st = (s, pre)" by (cases st)
  have "in_step b (lastNotificationState (snd (webhook_inventory env cfg req s)),
                   pre @ sent (snd (webhook_inventory env cfg req s)))"
    using Cons.prems st by (simp add: in_step_webhook_inventory)
  then have "in_step b (serve cfg later
      (lastNotificationState (snd (webhook_inventory env cfg req s)),
       pre @ sent (snd (webhook_inventory env cfg req s))))"
    by (rule Cons.IH)
  then show ?case using event st by (simp add: Let_def)
qed

subsection \<open>A brand for which nothing is to be done stays as it is\<close>

lemma reconcileBrand_quiet:
  assumes "quiet st (s b)"
  shows "reconcileBrand transport b st (s, log) = (s, log)"
  using assms by (auto simp add: quiet_def reconcileBrand_def)

lemma reconcileBrand_settles:
  "quiet st (fst (reconcileBrand transport b st (s, log)) b)"
  by (auto simp add: quiet_def reconcileBrand_def Let_def)

lemma alerts_about_append: "alerts_about b (xs @ ys) = alerts_about b xs @ alerts_about b ys"
  by (simp add: alerts_about_def)

lemma reconcileBrand_other_alerts:
  assumes "b' \<noteq> b"
  shows "alerts_about b' (snd (reconcileBrand transport b st (s, log))) = alerts_about b' log"
  using assms by (cases rule: reconcileBrand_cases [of st s b transport log];
      simp add: alerts_about_def)

lemma forBrands_quiet:
  assumes "checkBrandStock (catalog env) cfg b = Some (Inr st)" and "quiet st (s b)"
  shows "lastNotificationState (forBrands env cfg brands (s, log)) b = s b
         \<and> alerts_about b (sent (forBrands env cfg brands (s, log))) = alerts_about b log"
  using assms(2)
proof (induction brands arbitrary: s log)
  case Nil
  show ?case by simp
next
  case (Cons brand rest)
  show ?case
  proof (cases "checkBrandStock (catalog env) cfg brand")
    case None
    then show ?thesis by simp
  next
    case (Some outcome)
    show ?thesis
    proof (cases outcome)
      case (Inl e)
      then show ?thesis using Some by simp
    next
      case (Inr stockStatus)
      obtain s' log' where step: "reconcileBrand (smtp env) brand stockStatus (s, log) = (s', log')"
        by (cases "reconcileBrand (smtp env) brand stockStatus (s, log)")
      have kept: "s' b = s b \<and> alerts_about b log' = alerts_about b log"
      proof (cases "brand = b")
        case True
        then have "stockStatus = st" using Some Inr assms(1) by simp
        then show ?thesis
          using True step Cons.prems reconcileBrand_quiet [of st s b "smtp env" log] by simp
      next
        case False
        then show ?thesis
          using step reconcileBrand_other_brand(1) [of b brand "smtp env" stockStatus s log]
            reconcileBrand_other_alerts [of b brand "smtp env" stockStatus s log]
          by simp
      qed
      then have "quiet st (s' b)" using Cons.prems by simp
      then have "lastNotificationState (forBrands env cfg rest (s', log')) b = s' b
         \<and> alerts_about b (sent (forBrands env cfg rest (s', log'))) = alerts_about b log'"
        by (rule Cons.IH)
      then show ?thesis using Some Inr step kept by simp
    qed
  qed
qed

text \<open>
  A pass that runs through reconciles every brand of its list: the brand ends in the
  state that the rule of its case writes, with the one alert of that case and no other.
\<close>

lemma forBrands_transition:
  assumes "checkBrandStock (catalog env) cfg b = Some (Inr st)"
    and "b \<in> set brands"
    and "ending (forBrands env cfg brands (s, log)) = Completed"
  shows "lastNotificationState (forBrands env cfg brands (s, log)) b
           = fst (reconcileBrand (smtp env) b st (s, log)) b
         \<and> alerts_about b (sent (forBrands env cfg brands (s, log)))
           = alerts_about b (snd (reconcileBrand (smtp env) b st (s, log)))"
  using assms(2,3)
proof (induction brands arbitrary: s log)
  case Nil
  then show ?case by simp
next
  case (Cons brand rest)
  show ?case
  proof (cases "checkBrandStock (catalog env) cfg brand")
    case None
    then show ?thesis using Cons.prems by simp
  next
    case (Some outcome)
    show ?thesis
    proof (cases outcome)
      case (Inl e)
      then show ?thesis using Some Cons.prems by simp
    next
      case (Inr stockStatus)
      obtain s' log' where step: "reconcileBrand (smtp env) brand stockStatus (s, log) = (s', log')"
        by (cases "reconcileBrand (smtp env) brand stockStatus (s, log)")
      have rest_done: "ending (forBrands env cfg rest (s', log')) = Completed"
        using Cons.prems(2) Some Inr step by simp
      show ?thesis
      proof (cases "brand = b")
        case True
        then have st: "stockStatus = st" using Some Inr assms(1) by simp
        have "quiet st (s' b)"
          using step True st reconcileBrand_settles [of st "smtp env" b s log] by simp
        then have "lastNotificationState (forBrands env cfg rest (s', log')) b = s' b
           \<and> alerts_about b (sent (forBrands env cfg rest (s', log'))) = alerts_about b log'"
          by (rule forBrands_quiet [OF assms(1)])
        then show ?thesis using Some Inr step True st by simp
      next
        case False
        then have "b \<in> set rest" using Cons.prems(1) by simp
        then have "lastNotificationState (forBrands env cfg rest (s', log')) b
             = fst (reconcileBrand (smtp env) b st (s', log')) b
           \<and> alerts_about b (sent (forBrands env cfg rest (s', log')))
             = alerts_about b (snd (reconcileBrand (smtp env) b st (s', log')))"
          using rest_done by (rule Cons.IH)
        moreover have "s' b = s b" and "alerts_about b log' = alerts_about b log"
          using False step reconcileBrand_other_brand(1) [of b brand "smtp env" stockStatus s log]
            reconcileBrand_other_alerts [of b brand "smtp env" stockStatus s log]
          by simp_all
        moreover have "fst (reconcileBrand (smtp env) b st (s', log')) b
                         = fst (reconcileBrand (smtp env) b st (s, log)) b"
          using \<open>s' b = s b\<close> by (simp add: reconcileBrand_def Let_def)
        moreover have "alerts_about b (snd (reconcileBrand (smtp env) b st (s', log')))
                         = alerts_about b (snd (reconcileBrand (smtp env) b st (s, log)))"
          using \<open>s' b = s b\<close> \<open>alerts_about b log' = alerts_about b log\<close>
          by (simp add: reconcileBrand_def Let_def alerts_about_append)
        ultimately show ?thesis using Some Inr step by simp
      qed
    qed
  qed
qed

text \<open>The store, and how the pass ends, do not depend on the transport.\<close>

lemma forBrands_any_transport:
  assumes "catalog env' = catalog env"
  shows "lastNotificationState (forBrands env' cfg brands (s, log'))
           = lastNotificationState (forBrands env cfg brands (s, log))
         \<and> ending (forBrands env' cfg brands (s, log')) = ending (forBrands env cfg brands (s, log))"
proof (induction brands arbitrary: s log log')
  case Nil
  show ?case by simp
next
  case (Cons brand rest)
  show ?case
  proof (cases "checkBrandStock (catalog env) cfg brand")
    case None
    then show ?thesis using assms by simp
  next
    case (Some outcome)
    show ?thesis
    proof (cases outcome)
      case (Inl e)
      then show ?thesis using Some assms by simp
    next
      case (Inr stockStatus)
      obtain s1 l1 where one: "reconcileBrand (smtp env) brand stockStatus (s, log) = (s1, l1)"
        by (cases "reconcileBrand (smtp env) brand stockStatus (s, log)")
      obtain s2 l2 where two: "reconcileBrand (smtp env') brand stockStatus (s, log') = (s2, l2)"
        by (cases "reconcileBrand (smtp env') brand stockStatus (s, log')")
      have "s2 = s1"
        using one two
          reconcileBrand_store_any_transport [of "smtp env'" brand stockStatus s log' "smtp env" log]
        by simp
      then show ?thesis using Some Inr assms one two Cons.IH [of s1 l2 l1] by simp
    qed
  qed
qed

section \<open>The examples, evaluated\<close>

lemma accepted_request_verified: "verifyWebhook example_config accepted_request"
  by code_simp

lemma check_acme_sold_out:
  "checkBrandStock acme_sold_out example_config ''Acme'' = Some (Inr sold_out)"
  by code_simp

lemma check_bolt_in_stock:
  "checkBrandStock acme_sold_out example_config ''Bolt''
     = Some (Inr \<lparr>allOOS = False, totalProducts = 1, oosProducts = 0, inStockProducts = 1\<rparr>)"
  by code_simp

lemma check_acme_restocked:
  "checkBrandStock acme_restocked example_config ''Acme'' = Some (Inr some_stock)"
  by code_simp

lemma check_bolt_still_in_stock:
  "checkBrandStock acme_restocked example_config ''Bolt''
     = Some (Inr \<lparr>allOOS = False, totalProducts = 1, oosProducts = 0, inStockProducts = 1\<rparr>)"
  by code_simp

lemma example_brands: "BRANDS_TO_MONITOR example_config = [''Acme'', ''Bolt'']"
  by (simp add: example_config_def)

lemma pass_acme_sold_out:
  assumes "s ''Bolt'' \<noteq> Some OOS"
  shows "forBrands (world acme_sold_out t) example_config [''Acme'', ''Bolt''] (s, log)
     = \<lparr>lastNotificationState = fst (reconcileBrand t ''Acme'' sold_out (s, log)),
        sent = snd (reconcileBrand t ''Acme'' sold_out (s, log)),
        ending = Completed\<rparr>"
proof -
  obtain s' log' where step: "reconcileBrand t ''Acme'' sold_out (s, log) = (s', log')"
    by (cases "reconcileBrand t ''Acme'' sold_out (s, log)")
  have "s' ''Bolt'' = s ''Bolt''"
    using step reconcileBrand_other_brand(1) [of "''Bolt''" "''Acme''" t sold_out s log] by simp
  then have "reconcileBrand t ''Bolt''
      \<lparr>allOOS = False, totalProducts = 1, oosProducts = 0, inStockProducts = 1\<rparr> (s', log')
        = (s', log')"
    using assms by (simp add: reconcileBrand_def)
  then show ?thesis
    using step by (simp add: world_def check_acme_sold_out check_bolt_in_stock)
qed

lemma pass_acme_restocked:
  assumes "s ''Bolt'' \<noteq> Some OOS"
  shows "forBrands (world acme_restocked t) example_config [''Acme'', ''Bolt''] (s, log)
     = \<lparr>lastNotificationState = fst (reconcileBrand t ''Acme'' some_stock (s, log)),
        sent = snd (reconcileBrand t ''Acme'' some_stock (s, log)),
        ending = Completed\<rparr>"
proof -
  obtain s' log' where step: "reconcileBrand t ''Acme'' some_stock (s, log) = (s', log')"
    by (cases "reconcileBrand t ''Acme'' some_stock (s, log)")
  have "s' ''Bolt'' = s ''Bolt''"
    using step reconcileBrand_other_brand(1) [of "''Bolt''" "''Acme''" t some_stock s log] by simp
  then have "reconcileBrand t ''Bolt''
      \<lparr>allOOS = False, totalProducts = 1, oosProducts = 0, inStockProducts = 1\<rparr> (s', log')
        = (s', log')"
    using assms by (simp add: reconcileBrand_def)
  then show ?thesis
    using step by (simp add: world_def check_acme_restocked check_bolt_still_in_stock)
qed

lemma five_webhooks:
  "alerts_for ''Acme'' (snd (serve example_config
       [(world acme_sold_out delivers, accepted_request),
        (world acme_sold_out delivers, accepted_request),
        (world acme_restocked hangs, accepted_request),
        (world acme_restocked delivers, accepted_request),
        (world acme_sold_out delivers, accepted_request)] (Map.empty, [])))
     = [Depletion, Restock, Depletion]"
  by (simp add: webhook_inventory_def accepted_request_verified example_brands
      pass_acme_sold_out pass_acme_restocked reconcileBrand_def sold_out_def some_stock_def
      alerts_for_def alerts_about_def Let_def del: forBrands.simps)

section \<open>Requests one after the other, and requests that overlap\<close>

text \<open>
  A handler that is woken until it is over, with nothing else happening in between, does
  what the loop \<open>forBrands\<close> does: the two waits of a brand together are one step of
  \<open>reconcileBrand\<close>.
\<close>

lemma resumes_over: "resumes n env cfg (Over e, st) = (Over e, st)"
  by (induction n) (simp_all add: resume_def)

lemma resume_twice:
  assumes "checkBrandStock (catalog env) cfg brand = Some (Inr stockStatus)"
    and "\<not> quiet stockStatus (fst st brand)"
  shows "resumes 2 env cfg (AwaitingStock brand rest, st)
           = (next_brand rest, reconcileBrand (smtp env) brand stockStatus st)"
  using assms
  by (auto simp add: numeral_2_eq_2 resume_def reconcileBrand_def quiet_def Let_def)

lemma resume_quiet:
  assumes "checkBrandStock (catalog env) cfg brand = Some (Inr stockStatus)"
    and "quiet stockStatus (fst st brand)"
  shows "resume env cfg (AwaitingStock brand rest) st
           = (next_brand rest, reconcileBrand (smtp env) brand stockStatus st)"
  using assms
  by (auto simp add: resume_def reconcileBrand_def quiet_def Let_def)

lemma resumes_forBrands:
  assumes "2 * length brands \<le> n"
  shows "resumes n env cfg (next_brand brands, st)
           = (Over (ending (forBrands env cfg brands st)),
              lastNotificationState (forBrands env cfg brands st),
              sent (forBrands env cfg brands st))"
  using assms
proof (induction brands arbitrary: n st)
  case Nil
  show ?case by (simp add: next_brand_def resumes_over)
next
  case (Cons brand rest)
  obtain m where n: "n = Suc (Suc m)" and m: "2 * length rest \<le> m"
    using Cons.prems by (cases n; cases "n - 1") auto
  show ?case
  proof (cases "checkBrandStock (catalog env) cfg brand")
    case None
    then show ?thesis
      by (simp add: n next_brand_def resume_def resumes_over)
  next
    case (Some outcome)
    show ?thesis
    proof (cases outcome)
      case (Inl e)
      then show ?thesis
        using Some by (simp add: n next_brand_def resume_def resumes_over)
    next
      case (Inr stockStatus)
      show ?thesis
      proof (cases "quiet stockStatus (fst st brand)")
        case True
        have "resumes n env cfg (next_brand (brand # rest), st)
            = resumes (Suc m) env cfg
                (next_brand rest, reconcileBrand (smtp env) brand stockStatus st)"
          using resume_quiet [of env cfg brand stockStatus st rest] Some Inr True
          by (simp add: n next_brand_def)
        also have "\<dots> = (Over (ending (forBrands env cfg rest
              (reconcileBrand (smtp env) brand stockStatus st))),
            lastNotificationState (forBrands env cfg rest
              (reconcileBrand (smtp env) brand stockStatus st)),
            sent (forBrands env cfg rest (reconcileBrand (smtp env) brand stockStatus st)))"
          using m by (intro Cons.IH) simp
        finally show ?thesis using Some Inr by simp
      next
        case False
        have "resumes 2 env cfg (AwaitingStock brand rest, st)
            = (next_brand rest, reconcileBrand (smtp env) brand stockStatus st)"
          using Some Inr False by (intro resume_twice) simp_all
        then have "resumes n env cfg (next_brand (brand # rest), st)
            = resumes m env cfg
                (next_brand rest, reconcileBrand (smtp env) brand stockStatus st)"
          by (simp add: n next_brand_def numeral_2_eq_2)
        also have "\<dots> = (Over (ending (forBrands env cfg rest
              (reconcileBrand (smtp env) brand stockStatus st))),
            lastNotificationState (forBrands env cfg rest
              (reconcileBrand (smtp env) brand stockStatus st)),
            sent (forBrands env cfg rest (reconcileBrand (smtp env) brand stockStatus st)))"
          using m by (intro Cons.IH)
        finally show ?thesis using Some Inr by simp
      qed
    qed
  qed
qed

text \<open>Waking one handler \<open>n\<close> times in a row is \<open>n\<close> runs of this handler.\<close>

lemma server_wakes:
  assumes "i < length hs" and "hs ! i = (env, h)"
  shows "server cfg (replicate n (Wakes i) @ later) (hs, st)
           = server cfg later
               (hs[i := (env, fst (resumes n env cfg (h, st)))], snd (resumes n env cfg (h, st)))"
  using assms
proof (induction n arbitrary: hs h st)
  case 0
  then show ?case by (simp add: list_update_same_conv [THEN iffD2])
next
  case (Suc n)
  let ?res = "resume env cfg h st"
  have "server cfg (replicate (Suc n) (Wakes i) @ later) (hs, st)
      = server cfg (replicate n (Wakes i) @ later) (hs[i := (env, fst ?res)], snd ?res)"
    using Suc.prems by (simp add: Let_def)
  also have "\<dots> = server cfg later
      ((hs[i := (env, fst ?res)])[i := (env, fst (resumes n env cfg (fst ?res, snd ?res)))],
       snd (resumes n env cfg (fst ?res, snd ?res)))"
    using Suc.prems by (intro Suc.IH) simp_all
  finally show ?case by simp
qed

text \<open>The alerts sent before a pass are carried through it unchanged.\<close>

lemma reconcileBrand_log:
  "reconcileBrand t b ss (s, pre @ log)
     = (fst (reconcileBrand t b ss (s, log)), pre @ snd (reconcileBrand t b ss (s, log)))"
  by (simp add: reconcileBrand_def Let_def)

lemma forBrands_log:
  "forBrands env cfg brands (s, pre @ log)
     = \<lparr>lastNotificationState = lastNotificationState (forBrands env cfg brands (s, log)),
        sent = pre @ sent (forBrands env cfg brands (s, log)),
        ending = ending (forBrands env cfg brands (s, log))\<rparr>"
proof (induction brands arbitrary: s log)
  case Nil
  show ?case by simp
next
  case (Cons brand rest)
  show ?case
  proof (cases "checkBrandStock (catalog env) cfg brand")
    case None
    then show ?thesis by simp
  next
    case (Some outcome)
    show ?thesis
    proof (cases outcome)
      case (Inl e)
      then show ?thesis using Some by simp
    next
      case (Inr ss)
      obtain s' log' where step: "reconcileBrand (smtp env) brand ss (s, log) = (s', log')"
        by (cases "reconcileBrand (smtp env) brand ss (s, log)")
      then have "reconcileBrand (smtp env) brand ss (s, pre @ log) = (s', pre @ log')"
        using reconcileBrand_log [of "smtp env" brand ss s pre log] by simp
      then show ?thesis
        using Some Inr step Cons.IH [of s' log'] by simp
    qed
  qed
qed

text \<open>
  The server on the schedule in which no two requests overlap ends with the store and the
  log that \<open>serve\<close> gives.
\<close>

lemma serve_one_by_one:
  "snd (server cfg (one_by_one cfg (length hs) requests) (hs, st)) = serve cfg requests st"
proof (induction requests arbitrary: hs st)
  case Nil
  show ?case by simp
next
  case (Cons request later)
  obtain env req where request: "request = (env, req)" by (cases request)
  obtain s pre where st: "st = (s, pre)" by (cases st)
  let ?h = "if verifyWebhook cfg req then next_brand (BRANDS_TO_MONITOR cfg) else Over Completed"
  let ?n = "2 * length (BRANDS_TO_MONITOR cfg)"
  let ?p = "snd (webhook_inventory env cfg req s)"
  have ended: "resumes ?n env cfg (?h, st)
      = (Over (ending ?p), lastNotificationState ?p, pre @ sent ?p)"
  proof (cases "verifyWebhook cfg req")
    case True
    have "forBrands env cfg (BRANDS_TO_MONITOR cfg) (s, pre @ [])
        = \<lparr>lastNotificationState = lastNotificationState ?p, sent = pre @ sent ?p,
           ending = ending ?p\<rparr>"
      using True forBrands_log [of env cfg "BRANDS_TO_MONITOR cfg" s pre "[]"]
      by (simp add: webhook_inventory_def)
    then show ?thesis
      using True st resumes_forBrands [of "BRANDS_TO_MONITOR cfg" ?n env cfg st] by simp
  next
    case False
    then show ?thesis by (simp add: resumes_over webhook_inventory_def st)
  qed
  have "server cfg (one_by_one cfg (length hs) (request # later)) (hs, st)
      = server cfg (replicate ?n (Wakes (length hs)) @ one_by_one cfg (Suc (length hs)) later)
          (hs @ [(env, ?h)], st)"
    by (simp add: request)
  also have "\<dots> = server cfg (one_by_one cfg (Suc (length hs)) later)
      ((hs @ [(env, ?h)])[length hs := (env, fst (resumes ?n env cfg (?h, st)))],
       snd (resumes ?n env cfg (?h, st)))"
    by (intro server_wakes) simp_all
  also have "\<dots> = server cfg (one_by_one cfg (length (hs @ [(env, Over (ending ?p))])) later)
      (hs @ [(env, Over (ending ?p))], lastNotificationState ?p, pre @ sent ?p)"
    by (simp add: ended)
  finally have "snd (server cfg (one_by_one cfg (length hs) (request # later)) (hs, st))
      = serve cfg later (lastNotificationState ?p, pre @ sent ?p)"
    using Cons.IH [of "hs @ [(env, Over (ending ?p))]" "(lastNotificationState ?p, pre @ sent ?p)"]
    by simp
  then show ?case by (simp add: request st Let_def)
qed

text \<open>
  Two requests that overlap, in the world in which Acme is sold out and Bolt has stock:
  the runs of the handlers, and the whole sequence.
\<close>

lemma resume_acme_sold_out:
  assumes "s ''Acme'' \<noteq> Some OOS"
  shows "resume (world acme_sold_out t) example_config (AwaitingStock ''Acme'' rest) (s, log)
     = (AwaitingEmail ''Acme'' OOS rest, s,
        log @ [(AllOutOfStock ''Acme'' sold_out, sendEmail (t (AllOutOfStock ''Acme'' sold_out)))])"
  using assms
  by (simp add: resume_def world_def check_acme_sold_out sold_out_def Let_def)

lemma resume_bolt_in_stock:
  assumes "s ''Bolt'' \<noteq> Some OOS"
  shows "resume (world acme_sold_out t) example_config (AwaitingStock ''Bolt'' rest) (s, log)
     = (next_brand rest, s, log)"
  using assms
  by (simp add: resume_def world_def check_bolt_in_stock)

lemma resume_after_email:
  "resume env cfg (AwaitingEmail brand new rest) (s, log) = (next_brand rest, s(brand \<mapsto> new), log)"
  by (simp add: resume_def)

lemma two_requests_overlap:
  "server example_config
       [Arrives (world acme_sold_out delivers) accepted_request,
        Arrives (world acme_sold_out delivers) accepted_request,
        Wakes 0, Wakes 1, Wakes 0, Wakes 1, Wakes 0, Wakes 1] ([], Map.empty, [])
     = ([(world acme_sold_out delivers, Over Completed),
         (world acme_sold_out delivers, Over Completed)],
        [''Acme'' \<mapsto> OOS],
        [(AllOutOfStock ''Acme'' sold_out, sendEmail (delivers (AllOutOfStock ''Acme'' sold_out))),
         (AllOutOfStock ''Acme'' sold_out, sendEmail (delivers (AllOutOfStock ''Acme'' sold_out)))])"
  by (simp add: accepted_request_verified example_brands next_brand_def resume_acme_sold_out
      resume_bolt_in_stock resume_after_email Let_def)

section \<open>The claims about the reconciler\<close>

text \<open>
  A step of a handler that overlaps with others still decides on the store as it is when
  the stock comes in.
\<close>

lemma resume_only_on_change:
  assumes "checkBrandStock (catalog env) cfg b = Some (Inr st)"
  shows "snd (snd (resume env cfg (AwaitingStock b rest) (s, log))) \<noteq> log
           \<longrightarrow> s b \<noteq> Some (implied_state st)"
    and "s b = Some OOS \<and> allOOS st
           \<longrightarrow> resume env cfg (AwaitingStock b rest) (s, log) = (next_brand rest, s, log)"
  using assms by (auto simp add: resume_def implied_state_def Let_def)

text \<open>
  C1, as the claim states it, fails on the webhook server. Two verified requests arrive
  shortly after each other while Acme is sold out and nothing is stored. The stock comes
  in for the first handler, which reads no entry for Acme, hands the depletion alert to
  the transport and waits for \<^verbatim>\<open>sendEmail\<close>; then the stock comes in for the second
  handler, which reads the entry before the first has written it and sends the same alert.
  The log has two depletion alerts about Acme with nothing in between.
\<close>

theorem overlapping_requests_counterexample:
  "alerts_for ''Acme'' (snd (snd (server example_config
       [Arrives (world acme_sold_out delivers) accepted_request,
        Arrives (world acme_sold_out delivers) accepted_request,
        Wakes 0, Wakes 1, Wakes 0, Wakes 1, Wakes 0, Wakes 1] ([], Map.empty, []))))
     = [Depletion, Depletion]
   \<and> \<not> distinct_adj (alerts_for ''Acme'' (snd (snd (server example_config
       [Arrives (world acme_sold_out delivers) accepted_request,
        Arrives (world acme_sold_out delivers) accepted_request,
        Wakes 0, Wakes 1, Wakes 0, Wakes 1, Wakes 0, Wakes 1] ([], Map.empty, [])))))"
  unfolding two_requests_overlap
  by (simp add: alerts_for_def alerts_about_def)

text \<open>
  C1, amended. In every step of the reconciler, also of a handler that overlaps with
  others, an alert about a brand is sent only when the state stored for the brand, as read
  before the decision, differs from the state that the new snapshot implies; when the
  stored state is \<open>OOS\<close> and the snapshot is all out of stock, nothing is sent and nothing
  is written. Over any sequence of webhook requests of which each is handled to its end
  before the next arrives, from any store, no two alerts of the same kind follow each
  other for a brand: between two depletion alerts there is a restock alert, and the other
  way round. (The server has no lock: nothing is said here about the order of the alerts
  of requests that overlap.)
\<close>

theorem notification_only_on_change:
  "(snd (reconcileBrand transport b st (s, log)) \<noteq> log \<longrightarrow> s b \<noteq> Some (implied_state st))
   \<and> (s b = Some OOS \<and> allOOS st \<longrightarrow> reconcileBrand transport b st (s, log) = (s, log))
   \<and> (checkBrandStock (catalog env) cfg b = Some (Inr st)
        \<and> snd (snd (resume env cfg (AwaitingStock b rest) (s, log))) \<noteq> log \<longrightarrow>
      s b \<noteq> Some (implied_state st))
   \<and> (checkBrandStock (catalog env) cfg b = Some (Inr st) \<and> s b = Some OOS \<and> allOOS st \<longrightarrow>
      resume env cfg (AwaitingStock b rest) (s, log) = (next_brand rest, s, log))
   \<and> snd (server cfg (one_by_one cfg 0 requests) ([], s0, [])) = serve cfg requests (s0, [])
   \<and> distinct_adj (alerts_for b
        (snd (snd (server cfg (one_by_one cfg 0 requests) ([], s0, [])))))"
proof -
  have "snd (reconcileBrand transport b st (s, log)) \<noteq> log \<longrightarrow> s b \<noteq> Some (implied_state st)"
    by (cases rule: reconcileBrand_cases [of st s b transport log])
      (auto simp add: implied_state_def)
  moreover have "s b = Some OOS \<and> allOOS st \<longrightarrow> reconcileBrand transport b st (s, log) = (s, log)"
    by (simp add: reconcileBrand_def)
  moreover have "checkBrandStock (catalog env) cfg b = Some (Inr st)
        \<and> snd (snd (resume env cfg (AwaitingStock b rest) (s, log))) \<noteq> log \<longrightarrow>
      s b \<noteq> Some (implied_state st)"
    using resume_only_on_change(1) [of env cfg b st rest s log] by blast
  moreover have "checkBrandStock (catalog env) cfg b = Some (Inr st) \<and> s b = Some OOS
        \<and> allOOS st \<longrightarrow>
      resume env cfg (AwaitingStock b rest) (s, log) = (next_brand rest, s, log)"
    using resume_only_on_change(2) [of env cfg b st s rest log] by blast
  moreover have same: "snd (server cfg (one_by_one cfg 0 requests) ([], s0, []))
      = serve cfg requests (s0, [])"
    using serve_one_by_one [of cfg "[]" requests "(s0, [])"] by simp
  moreover have "in_step b (serve cfg requests (s0, []))"
    using in_step_start by (rule in_step_serve)
  then have "distinct_adj (alerts_for b
      (snd (snd (server cfg (one_by_one cfg 0 requests) ([], s0, [])))))"
    by (simp add: in_step_def same)
  ultimately show ?thesis by blast
qed

theorem notification_only_on_change_witness:
  "snd (reconcileBrand delivers ''Acme'' sold_out (Map.empty, [])) \<noteq> []
   \<and> Map.empty ''Acme'' \<noteq> Some (implied_state sold_out)
   \<and> [''Acme'' \<mapsto> OOS] ''Acme'' = Some OOS \<and> allOOS sold_out
   \<and> reconcileBrand delivers ''Acme'' sold_out ([''Acme'' \<mapsto> OOS], [])
        = ([''Acme'' \<mapsto> OOS], [])
   \<and> checkBrandStock (catalog (world acme_sold_out delivers)) example_config ''Acme''
        = Some (Inr sold_out)
   \<and> snd (snd (resume (world acme_sold_out delivers) example_config
        (AwaitingStock ''Acme'' [''Bolt'']) (Map.empty, []))) \<noteq> []
   \<and> resume (world acme_sold_out delivers) example_config
        (AwaitingStock ''Acme'' [''Bolt'']) ([''Acme'' \<mapsto> OOS], [])
        = (AwaitingStock ''Bolt'' [], [''Acme'' \<mapsto> OOS], [])
   \<and> alerts_for ''Acme'' (snd (snd (server example_config (one_by_one example_config 0
       [(world acme_sold_out delivers, accepted_request),
        (world acme_sold_out delivers, accepted_request),
        (world acme_restocked hangs, accepted_request),
        (world acme_restocked delivers, accepted_request),
        (world acme_sold_out delivers, accepted_request)]) ([], Map.empty, []))))
        = [Depletion, Restock, Depletion]
   \<and> distinct_adj (alerts_for ''Acme'' (snd (snd (server example_config
       (one_by_one example_config 0
       [(world acme_sold_out delivers, accepted_request),
        (world acme_sold_out delivers, accepted_request),
        (world acme_restocked hangs, accepted_request),
        (world acme_restocked delivers, accepted_request),
        (world acme_sold_out delivers, accepted_request)]) ([], Map.empty, [])))))"
proof -
  let ?five = "[(world acme_sold_out delivers, accepted_request),
        (world acme_sold_out delivers, accepted_request),
        (world acme_restocked hangs, accepted_request),
        (world acme_restocked delivers, accepted_request),
        (world acme_sold_out delivers, accepted_request)]"
  have sent: "snd (reconcileBrand delivers ''Acme'' sold_out (Map.empty, [])) \<noteq> []"
    by (simp add: reconcileBrand_def sold_out_def Let_def)
  have stored: "[''Acme'' \<mapsto> OOS] ''Acme'' = Some OOS \<and> allOOS sold_out"
    by (simp add: sold_out_def)
  have check: "checkBrandStock (catalog (world acme_sold_out delivers)) example_config ''Acme''
        = Some (Inr sold_out)"
    by (simp add: world_def check_acme_sold_out)
  have woken: "snd (snd (resume (world acme_sold_out delivers) example_config
        (AwaitingStock ''Acme'' [''Bolt'']) (Map.empty, []))) \<noteq> []"
    by (simp add: resume_acme_sold_out)
  show ?thesis
    using sent stored check woken five_webhooks
      notification_only_on_change [of delivers "''Acme''" sold_out Map.empty "[]"
        "world acme_sold_out delivers" example_config "[''Bolt'']" ?five Map.empty]
      notification_only_on_change [of delivers "''Acme''" sold_out "[''Acme'' \<mapsto> OOS]" "[]"
        "world acme_sold_out delivers" example_config "[''Bolt'']" "[]" Map.empty]
    by (simp add: next_brand_def)
qed

text \<open>
  The transition function of the webhook server (server.js, lines 199 to 232). For every
  snapshot and every stored state: when the stored state is not \<open>OOS\<close> (unknown included)
  and the snapshot is all out of stock, the step sends exactly one depletion alert and sets
  the stored state to \<open>OOS\<close>; when the stored state is \<open>OOS\<close>, the snapshot is not all out
  of stock and counts a product in stock, the step sends exactly one restock alert and sets
  the stored state to \<open>IN_STOCK\<close>. The same holds of a whole pass that runs through: the
  brand ends in that state, with that one alert about it.
\<close>

theorem transition_function:
  "(s b \<noteq> Some OOS \<and> allOOS st \<longrightarrow>
      reconcileBrand transport b st (s, log)
        = (s(b \<mapsto> OOS), log @ [(AllOutOfStock b st, sendEmail (transport (AllOutOfStock b st)))]))
   \<and> (s b = Some OOS \<and> \<not> allOOS st \<and> 0 < inStockProducts st \<longrightarrow>
      reconcileBrand transport b st (s, log)
        = (s(b \<mapsto> IN_STOCK), log @ [(BackInStock b st, sendEmail (transport (BackInStock b st)))]))
   \<and> (checkBrandStock (catalog env) cfg b = Some (Inr st) \<and> b \<in> set brands
        \<and> ending (forBrands env cfg brands (s, [])) = Completed \<longrightarrow>
      (s b \<noteq> Some OOS \<and> allOOS st \<longrightarrow>
         lastNotificationState (forBrands env cfg brands (s, [])) b = Some OOS
         \<and> alerts_about b (sent (forBrands env cfg brands (s, []))) = [AllOutOfStock b st])
      \<and> (s b = Some OOS \<and> \<not> allOOS st \<and> 0 < inStockProducts st \<longrightarrow>
         lastNotificationState (forBrands env cfg brands (s, [])) b = Some IN_STOCK
         \<and> alerts_about b (sent (forBrands env cfg brands (s, []))) = [BackInStock b st]))"
proof -
  have step1: "s b \<noteq> Some OOS \<and> allOOS st \<longrightarrow>
      reconcileBrand t b st (s, l)
        = (s(b \<mapsto> OOS), l @ [(AllOutOfStock b st, sendEmail (t (AllOutOfStock b st)))])" for t l
    using reconcileBrand_depleted [of st s b t l] by blast
  have step2: "s b = Some OOS \<and> \<not> allOOS st \<and> 0 < inStockProducts st \<longrightarrow>
      reconcileBrand t b st (s, l)
        = (s(b \<mapsto> IN_STOCK), l @ [(BackInStock b st, sendEmail (t (BackInStock b st)))])" for t l
    using reconcileBrand_restocked [of st s b t l] by blast
  have whole: "lastNotificationState (forBrands env cfg brands (s, [])) b
           = fst (reconcileBrand (smtp env) b st (s, [])) b
         \<and> alerts_about b (sent (forBrands env cfg brands (s, [])))
           = alerts_about b (snd (reconcileBrand (smtp env) b st (s, [])))"
    if "checkBrandStock (catalog env) cfg b = Some (Inr st)" and "b \<in> set brands"
      and "ending (forBrands env cfg brands (s, [])) = Completed"
    using that by (rule forBrands_transition)
  show ?thesis
    using step1 [of transport log] step2 [of transport log] step1 [of "smtp env" "[]"]
      step2 [of "smtp env" "[]"] whole
    by (auto simp add: alerts_about_def)
qed

theorem transition_function_witness:
  "Map.empty ''Acme'' \<noteq> Some OOS \<and> allOOS sold_out
   \<and> reconcileBrand hangs ''Acme'' sold_out (Map.empty, [])
        = ([''Acme'' \<mapsto> OOS],
           [(AllOutOfStock ''Acme'' sold_out, sendEmail (hangs (AllOutOfStock ''Acme'' sold_out)))])
   \<and> [''Acme'' \<mapsto> OOS] ''Acme'' = Some OOS \<and> \<not> allOOS some_stock \<and> 0 < inStockProducts some_stock
   \<and> reconcileBrand delivers ''Acme'' some_stock ([''Acme'' \<mapsto> OOS], [])
        = ([''Acme'' \<mapsto> IN_STOCK],
           [(BackInStock ''Acme'' some_stock, sendEmail (delivers (BackInStock ''Acme'' some_stock)))])
   \<and> checkBrandStock (catalog (world acme_sold_out delivers)) example_config ''Acme''
        = Some (Inr sold_out)
   \<and> ''Acme'' \<in> set [''Acme'', ''Bolt'']
   \<and> ending (forBrands (world acme_sold_out delivers) example_config [''Acme'', ''Bolt'']
        (Map.empty, [])) = Completed
   \<and> lastNotificationState (forBrands (world acme_sold_out delivers) example_config
        [''Acme'', ''Bolt''] (Map.empty, [])) ''Acme'' = Some OOS
   \<and> alerts_about ''Acme'' (sent (forBrands (world acme_sold_out delivers) example_config
        [''Acme'', ''Bolt''] (Map.empty, []))) = [AllOutOfStock ''Acme'' sold_out]
   \<and> checkBrandStock (catalog (world acme_restocked delivers)) example_config ''Acme''
        = Some (Inr some_stock)
   \<and> ending (forBrands (world acme_restocked delivers) example_config [''Acme'', ''Bolt'']
        ([''Acme'' \<mapsto> OOS], [])) = Completed
   \<and> lastNotificationState (forBrands (world acme_restocked delivers) example_config
        [''Acme'', ''Bolt''] ([''Acme'' \<mapsto> OOS], [])) ''Acme'' = Some IN_STOCK
   \<and> alerts_about ''Acme'' (sent (forBrands (world acme_restocked delivers) example_config
        [''Acme'', ''Bolt''] ([''Acme'' \<mapsto> OOS], []))) = [BackInStock ''Acme'' some_stock]"
proof -
  have facts: "Map.empty ''Acme'' \<noteq> Some OOS \<and> allOOS sold_out
      \<and> [''Acme'' \<mapsto> OOS] ''Acme'' = Some OOS \<and> \<not> allOOS some_stock \<and> 0 < inStockProducts some_stock"
    by (simp add: sold_out_def some_stock_def)
  have checks: "checkBrandStock (catalog (world acme_sold_out delivers)) example_config ''Acme''
        = Some (Inr sold_out)
      \<and> checkBrandStock (catalog (world acme_restocked delivers)) example_config ''Acme''
        = Some (Inr some_stock)"
    by (simp add: world_def check_acme_sold_out check_acme_restocked)
  have ends: "ending (forBrands (world acme_sold_out delivers) example_config [''Acme'', ''Bolt'']
        (Map.empty, [])) = Completed
      \<and> ending (forBrands (world acme_restocked delivers) example_config [''Acme'', ''Bolt'']
        ([''Acme'' \<mapsto> OOS], [])) = Completed"
    by (simp add: pass_acme_sold_out pass_acme_restocked del: forBrands.simps)
  show ?thesis
    using facts checks ends
      transition_function [of Map.empty "''Acme''" sold_out hangs "[]"
        "world acme_sold_out delivers" example_config "[''Acme'', ''Bolt'']"]
      transition_function [of "[''Acme'' \<mapsto> OOS]" "''Acme''" some_stock delivers "[]"
        "world acme_restocked delivers" example_config "[''Acme'', ''Bolt'']"]
    by (simp del: forBrands.simps)
qed

section \<open>Properties of the stand-alone monitor\<close>

text \<open>
  What a pass of the monitor that reaches its end has in \<^verbatim>\<open>currentState\<close> for a brand: the
  state that the snapshot implies when the brand is in the list and has products, and what
  was there before otherwise (from \<^verbatim>\<open>checkAllBrands\<close>: nothing).
\<close>

lemma forBrands_monitor_state:
  assumes "forBrands_monitor env cfg brands previousState cur = Some res"
  shows "fst res b =
     (if b \<in> set brands then
        (case checkBrandStock_monitor (catalog env) cfg b of
           Some (Inr (Some st)) \<Rightarrow> Some (implied_state st)
         | _ \<Rightarrow> fst cur b)
      else fst cur b)"
  using assms
proof (induction brands arbitrary: cur)
  case Nil
  then show ?case by simp
next
  case (Cons brand rest)
  show ?case
  proof (cases "checkBrandStock_monitor (catalog env) cfg brand")
    case None
    then show ?thesis using Cons.prems by simp
  next
    case (Some outcome)
    show ?thesis
    proof (cases outcome)
      case (Inl e)
      then have "forBrands_monitor env cfg rest previousState cur = Some res"
        using Some Cons.prems by simp
      then show ?thesis using Cons.IH [of cur] Some Inl by simp
    next
      case (Inr snapshot)
      show ?thesis
      proof (cases snapshot)
        case None
        then have "forBrands_monitor env cfg rest previousState cur = Some res"
          using Some Inr Cons.prems by simp
        then show ?thesis using Cons.IH [of cur] Some Inr None by simp
      next
        case (Some st)
        let ?cs = "(fst cur)(brand \<mapsto> (if allOOS st then OOS else IN_STOCK))"
        obtain log' where "forBrands_monitor env cfg rest previousState (?cs, log') = Some res"
          using Cons.prems \<open>checkBrandStock_monitor (catalog env) cfg brand = Some outcome\<close> Inr Some
          by (auto simp add: Let_def split: if_splits option.splits)
        then have "fst res b =
           (if b \<in> set rest then
              (case checkBrandStock_monitor (catalog env) cfg b of
                 Some (Inr (Some st)) \<Rightarrow> Some (implied_state st)
               | _ \<Rightarrow> fst (?cs, log') b)
            else fst (?cs, log') b)"
          by (rule Cons.IH)
        then show ?thesis
          using \<open>checkBrandStock_monitor (catalog env) cfg brand = Some outcome\<close> Inr Some
          by (auto simp add: implied_state_def split: option.splits sum.splits)
      qed
    qed
  qed
qed


text \<open>
  The file after a pass: \<^verbatim>\<open>currentState\<close>, which was built from nothing. A brand whose
  fetch failed, or which has no product, has no entry in it, whatever the file said before.
\<close>

lemma checkAllBrands_saved:
  assumes "checkAllBrands env cfg state_file = Some (saved, sending)"
    and "state_file_writable env"
  shows "saved b =
     (if b \<in> set (BRANDS_TO_MONITOR cfg) then
        (case checkBrandStock_monitor (catalog env) cfg b of
           Some (Inr (Some st)) \<Rightarrow> Some (implied_state st)
         | _ \<Rightarrow> None)
      else None)"
proof -
  obtain res where pass: "forBrands_monitor env cfg (BRANDS_TO_MONITOR cfg) state_file (Map.empty, [])
      = Some res" and saved: "saved = fst res"
    using assms by (auto simp add: checkAllBrands_def split: option.splits)
  show ?thesis
    using forBrands_monitor_state [OF pass, of b] saved
    by (simp split: option.splits sum.splits)
qed


section \<open>The first observation, and a brand without products\<close>

lemma check_bolt_empty:
  "getProductsForBrand bolt_empty example_config ''Bolt'' = Some (Inr [])"
  by code_simp

lemma check_bolt_no_product:
  "checkBrandStock bolt_empty example_config ''Bolt''
     = Some (Inr \<lparr>allOOS = False, totalProducts = 0, oosProducts = 0, inStockProducts = 0\<rparr>)"
  by code_simp

lemma check_acme_anvil:
  "checkBrandStock bolt_empty example_config ''Acme''
     = Some (Inr \<lparr>allOOS = True, totalProducts = 1, oosProducts = 1, inStockProducts = 0\<rparr>)"
  by code_simp






text \<open>
  A brand without products on the webhook server (server.js, lines 119 to 126 and 199 to
  232). When the fetch of a brand returns no product while the state stored for the brand
  is \<open>OOS\<close>, the snapshot is neither all out of stock nor in stock, the step sends no
  alert of either kind and the stored state stays \<open>OOS\<close>: the loop goes on to the next
  brand with the store and the log unchanged, and at the end of the pass, however it ends,
  the brand is still stored as \<open>OOS\<close> and no alert about it was sent.
\<close>

theorem empty_brand_keeps_state:
  "getProductsForBrand (catalog env) cfg b = Some (Inr []) \<and> s b = Some OOS \<longrightarrow>
     checkBrandStock (catalog env) cfg b
       = Some (Inr \<lparr>allOOS = False, totalProducts = 0, oosProducts = 0, inStockProducts = 0\<rparr>)
     \<and> forBrands env cfg (b # rest) (s, log) = forBrands env cfg rest (s, log)
     \<and> lastNotificationState (forBrands env cfg brands (s, [])) b = Some OOS
     \<and> alerts_about b (sent (forBrands env cfg brands (s, []))) = []"
proof
  assume a: "getProductsForBrand (catalog env) cfg b = Some (Inr []) \<and> s b = Some OOS"
  let ?empty = "\<lparr>allOOS = False, totalProducts = 0, oosProducts = 0, inStockProducts = 0\<rparr>"
  have check: "checkBrandStock (catalog env) cfg b = Some (Inr ?empty)"
    using a by (simp add: checkBrandStock_def aggregate_def)
  have q: "quiet ?empty (s b)"
    by (simp add: quiet_def)
  have "reconcileBrand (smtp env) b ?empty (s, log) = (s, log)"
    using q by (rule reconcileBrand_quiet)
  then have "forBrands env cfg (b # rest) (s, log) = forBrands env cfg rest (s, log)"
    using check by simp
  moreover have "lastNotificationState (forBrands env cfg brands (s, [])) b = s b
         \<and> alerts_about b (sent (forBrands env cfg brands (s, []))) = []"
    using check q forBrands_quiet [of env cfg b ?empty s brands "[]"]
    by (simp add: alerts_about_def)
  ultimately show "checkBrandStock (catalog env) cfg b = Some (Inr ?empty)
     \<and> forBrands env cfg (b # rest) (s, log) = forBrands env cfg rest (s, log)
     \<and> lastNotificationState (forBrands env cfg brands (s, [])) b = Some OOS
     \<and> alerts_about b (sent (forBrands env cfg brands (s, []))) = []"
    using check a by simp
qed

theorem empty_brand_keeps_state_witness:
  "getProductsForBrand (catalog (world bolt_empty delivers)) example_config ''Bolt'' = Some (Inr [])
   \<and> [''Bolt'' \<mapsto> OOS] ''Bolt'' = Some OOS
   \<and> lastNotificationState (forBrands (world bolt_empty delivers) example_config
        [''Acme'', ''Bolt''] ([''Bolt'' \<mapsto> OOS], [])) ''Bolt'' = Some OOS
   \<and> alerts_about ''Bolt'' (sent (forBrands (world bolt_empty delivers) example_config
        [''Acme'', ''Bolt''] ([''Bolt'' \<mapsto> OOS], []))) = []
   \<and> alerts_about ''Acme'' (sent (forBrands (world bolt_empty delivers) example_config
        [''Acme'', ''Bolt''] ([''Bolt'' \<mapsto> OOS], [])))
        = [AllOutOfStock ''Acme''
             \<lparr>allOOS = True, totalProducts = 1, oosProducts = 1, inStockProducts = 0\<rparr>]"
proof -
  have fetched: "getProductsForBrand (catalog (world bolt_empty delivers)) example_config ''Bolt''
      = Some (Inr [])"
    by (simp add: world_def check_bolt_empty)
  have stored: "[''Bolt'' \<mapsto> OOS] ''Bolt'' = Some OOS"
    by simp
  have acme: "alerts_about ''Acme'' (sent (forBrands (world bolt_empty delivers) example_config
        [''Acme'', ''Bolt''] ([''Bolt'' \<mapsto> OOS], [])))
        = [AllOutOfStock ''Acme''
             \<lparr>allOOS = True, totalProducts = 1, oosProducts = 1, inStockProducts = 0\<rparr>]"
    by (simp add: world_def check_acme_anvil check_bolt_no_product reconcileBrand_def
        Let_def alerts_about_def)
  show ?thesis
    using fetched stored acme
      empty_brand_keeps_state [of "world bolt_empty delivers" example_config "''Bolt''"
        "[''Bolt'' \<mapsto> OOS]" "[]" "[]" "[''Acme'', ''Bolt'']"]
    by (simp del: forBrands.simps)
qed

section \<open>Properties of the notifier\<close>

lemma sendEmail_cases:
  "sendEmail NeverSettles
     = \<lparr>success = False, messageId = None,
        error_message = Some ''Email send timeout after 10 seconds'', error_code = None\<rparr>"
  "sendEmail (Settles t d) =
     (if t < 10000 then
        (case d of
           Accepted mid \<Rightarrow>
             \<lparr>success = True, messageId = Some mid, error_message = None, error_code = None\<rparr>
         | Refused msg code \<Rightarrow>
             \<lparr>success = False, messageId = None, error_message = Some msg, error_code = code\<rparr>)
      else \<lparr>success = False, messageId = None,
        error_message = Some ''Email send timeout after 10 seconds'', error_code = None\<rparr>)"
  by (simp_all add: sendEmail_def race_timeout_def split: delivery.split)

text \<open>
  The notifier of the webhook server (server.js, lines 152 to 177). \<^verbatim>\<open>sendEmail\<close> returns
  a result for everything the transport can do: a success with a message id exactly when
  the transport accepted the message before the timer of ten seconds, and a failure with an
  error message otherwise; a send that is still open when the timer fires, or that never
  settles, gives the timeout failure. A failed or timed-out send does not undo the
  transition: the step writes the new state all the same, and the store at the end of a
  pass is the same whatever the transport does.
\<close>

theorem notifier_is_best_effort:
  "success (sendEmail run) = (\<exists>t mid. run = Settles t (Accepted mid) \<and> t < 10000)
   \<and> (success (sendEmail run) \<and> messageId (sendEmail run) \<noteq> None
        \<or> \<not> success (sendEmail run) \<and> error_message (sendEmail run) \<noteq> None)
   \<and> (run = NeverSettles \<or> (\<exists>t d. run = Settles t d \<and> 10000 \<le> t) \<longrightarrow>
        sendEmail run = \<lparr>success = False, messageId = None,
          error_message = Some ''Email send timeout after 10 seconds'', error_code = None\<rparr>)
   \<and> (allOOS st \<and> s b \<noteq> Some OOS \<and> \<not> success (sendEmail (transport (AllOutOfStock b st))) \<longrightarrow>
        fst (reconcileBrand transport b st (s, log)) b = Some OOS)
   \<and> (\<not> allOOS st \<and> 0 < inStockProducts st \<and> s b = Some OOS
        \<and> \<not> success (sendEmail (transport (BackInStock b st))) \<longrightarrow>
        fst (reconcileBrand transport b st (s, log)) b = Some IN_STOCK)
   \<and> (catalog env' = catalog env \<longrightarrow>
        lastNotificationState (forBrands env' cfg brands (s, log))
          = lastNotificationState (forBrands env cfg brands (s, log)))"
proof -
  have result: "success (sendEmail run) = (\<exists>t mid. run = Settles t (Accepted mid) \<and> t < 10000)
   \<and> (success (sendEmail run) \<and> messageId (sendEmail run) \<noteq> None
        \<or> \<not> success (sendEmail run) \<and> error_message (sendEmail run) \<noteq> None)
   \<and> (run = NeverSettles \<or> (\<exists>t d. run = Settles t d \<and> 10000 \<le> t) \<longrightarrow>
        sendEmail run = \<lparr>success = False, messageId = None,
          error_message = Some ''Email send timeout after 10 seconds'', error_code = None\<rparr>)"
  proof (cases run)
    case NeverSettles
    then show ?thesis by (simp add: sendEmail_cases)
  next
    case (Settles t d)
    then show ?thesis by (cases d) (auto simp add: sendEmail_cases)
  qed
  have kept: "catalog env' = catalog env \<longrightarrow>
        lastNotificationState (forBrands env' cfg brands (s, log))
          = lastNotificationState (forBrands env cfg brands (s, log))"
    using forBrands_any_transport [of env' env cfg brands s log log] by simp
  have depleted: "allOOS st \<and> s b \<noteq> Some OOS
        \<and> \<not> success (sendEmail (transport (AllOutOfStock b st))) \<longrightarrow>
        fst (reconcileBrand transport b st (s, log)) b = Some OOS"
    using reconcileBrand_depleted [of st s b transport log] by simp
  have restocked: "\<not> allOOS st \<and> 0 < inStockProducts st \<and> s b = Some OOS
        \<and> \<not> success (sendEmail (transport (BackInStock b st))) \<longrightarrow>
        fst (reconcileBrand transport b st (s, log)) b = Some IN_STOCK"
    using reconcileBrand_restocked [of st s b transport log] by simp
  show ?thesis
    using result depleted restocked kept by blast
qed

theorem notifier_is_best_effort_witness:
  "sendEmail NeverSettles = \<lparr>success = False, messageId = None,
          error_message = Some ''Email send timeout after 10 seconds'', error_code = None\<rparr>
   \<and> sendEmail (Settles 10001 (Accepted ''late'')) = \<lparr>success = False, messageId = None,
          error_message = Some ''Email send timeout after 10 seconds'', error_code = None\<rparr>
   \<and> allOOS sold_out \<and> Map.empty ''Acme'' \<noteq> Some OOS
   \<and> \<not> success (sendEmail (hangs (AllOutOfStock ''Acme'' sold_out)))
   \<and> fst (reconcileBrand hangs ''Acme'' sold_out (Map.empty, [])) ''Acme'' = Some OOS
   \<and> \<not> allOOS some_stock \<and> 0 < inStockProducts some_stock \<and> [''Acme'' \<mapsto> OOS] ''Acme'' = Some OOS
   \<and> \<not> success (sendEmail (hangs (BackInStock ''Acme'' some_stock)))
   \<and> fst (reconcileBrand hangs ''Acme'' some_stock ([''Acme'' \<mapsto> OOS], [])) ''Acme'' = Some IN_STOCK
   \<and> catalog (world acme_sold_out hangs) = catalog (world acme_sold_out delivers)
   \<and> lastNotificationState
        (forBrands (world acme_sold_out hangs) example_config [''Acme'', ''Bolt''] (Map.empty, []))
      = lastNotificationState
        (forBrands (world acme_sold_out delivers) example_config [''Acme'', ''Bolt''] (Map.empty, []))
   \<and> lastNotificationState
        (forBrands (world acme_sold_out hangs) example_config [''Acme'', ''Bolt''] (Map.empty, []))
        ''Acme'' = Some OOS
   \<and> map (success \<circ> snd)
        (sent (forBrands (world acme_sold_out hangs) example_config [''Acme'', ''Bolt'']
           (Map.empty, []))) = [False]"
proof -
  have facts: "allOOS sold_out \<and> Map.empty ''Acme'' \<noteq> Some OOS
      \<and> \<not> success (sendEmail (hangs (AllOutOfStock ''Acme'' sold_out)))
      \<and> \<not> allOOS some_stock \<and> 0 < inStockProducts some_stock \<and> [''Acme'' \<mapsto> OOS] ''Acme'' = Some OOS
      \<and> \<not> success (sendEmail (hangs (BackInStock ''Acme'' some_stock)))
      \<and> catalog (world acme_sold_out hangs) = catalog (world acme_sold_out delivers)"
    by (simp add: sold_out_def some_stock_def hangs_def sendEmail_cases world_def)
  have pass: "lastNotificationState
        (forBrands (world acme_sold_out hangs) example_config [''Acme'', ''Bolt''] (Map.empty, []))
        ''Acme'' = Some OOS
      \<and> map (success \<circ> snd)
        (sent (forBrands (world acme_sold_out hangs) example_config [''Acme'', ''Bolt'']
           (Map.empty, []))) = [False]"
    by (simp add: pass_acme_sold_out reconcileBrand_def sold_out_def hangs_def sendEmail_cases
        Let_def del: forBrands.simps)
  show ?thesis
    using facts pass
      notifier_is_best_effort [of NeverSettles sold_out Map.empty "''Acme''" hangs "[]"
        "world acme_sold_out hangs" "world acme_sold_out delivers" example_config
        "[''Acme'', ''Bolt'']"]
      notifier_is_best_effort [of "Settles 10001 (Accepted ''late'')" some_stock
        "[''Acme'' \<mapsto> OOS]" "''Acme''" hangs "[]"
        "world acme_sold_out hangs" "world acme_sold_out delivers" example_config "[]"]
    by (simp del: forBrands.simps)
qed

section \<open>The first prototype: a mail that is refused\<close>

text \<open>
  The notifier of the first prototype is not guarded: a rejection of the transport is
  thrown on to the caller, and nothing bounds the wait.
\<close>

lemma sendEmail_prototype_throws:
  "sendEmail_prototype (Settles t (Refused msg code)) = Some (Inl msg)
   \<and> sendEmail_prototype NeverSettles = None"
  by (simp add: sendEmail_prototype_def)

lemma not_array_index: "array_index ''Acme'' = None" "array_index ''Bolt'' = None"
  by (simp_all add: array_index_def)

lemma entries_order:
  "map fst (entries [(''Bolt'', a), (''10'', b), (''9'', c), (''Acme'', d)])
     = [''9'', ''10'', ''Bolt'', ''Acme'']"
  by (simp add: array_index_def entries_def)

lemmas prototype_defs = item_def allOOS_every_def not_above_zero_def checkBrandsStock_def
  getAllProducts_shop loadState_prototype_def inherited_names_def entries_def
  sendEmail_prototype_def accepting_def refusing_def bolt_refused_def silent_def

text \<open>
  What the pass of the prototype does when every mail is delivered: the vendor is filed
  under the state that the check gives, and a vendor whose state changed from or to \<open>OOS\<close>
  gets its one alert.
\<close>

lemma checkBrandsStock_delivered:
  "checkBrandsStock (shop [item ''Acme'' ''anvil'' [0, 0]] accepting) NoFile
     = (Holds [''Acme'' \<mapsto> OOS], [(Depletion, ''Acme'')], Returns)"
  "checkBrandsStock (shop [item ''Acme'' ''anvil'' [4, 0]] accepting) (Holds [''Acme'' \<mapsto> OOS])
     = (Holds [''Acme'' \<mapsto> IN_STOCK], [(Restock, ''Acme'')], Returns)"
  using not_array_index by (simp_all add: prototype_defs)

text \<open>
  C2 on the first prototype (\<^verbatim>\<open>checkBrandsStock\<close>, unnamed/part_000, lines 84 to 123).
  The catalog has one product of Acme, which is sold out, and there is no state file; the
  transport refuses the mail. \<^verbatim>\<open>sendEmail\<close> throws, the exception leaves the loop and the
  function, and \<^verbatim>\<open>saveState(newState)\<close> in line 121 is never reached: there is still no
  state file after the pass, where the claim has the stored state set to \<open>OOS\<close>. In the
  other direction, with Acme stored as \<open>OOS\<close> and back in stock, the file still says
  \<open>OOS\<close> after the pass. The next pass decides on the old state again.
\<close>

theorem refused_mail_loses_the_transition:
  "checkBrandsStock (shop [item ''Acme'' ''anvil'' [0, 0]] refusing) NoFile
     = (NoFile, [], Throws (MailRejected ''Invalid login''))
   \<and> checkBrandsStock (shop [item ''Acme'' ''anvil'' [4, 0]] refusing) (Holds [''Acme'' \<mapsto> OOS])
     = (Holds [''Acme'' \<mapsto> OOS], [], Throws (MailRejected ''Invalid login''))"
  using not_array_index by (simp add: prototype_defs)

text \<open>
  C9 on the first prototype (\<^verbatim>\<open>sendEmail\<close>, unnamed/part_000, lines 72 to 81). For a mail
  that the transport refuses, \<^verbatim>\<open>sendEmail\<close> of the prototype raises the error, and for a
  transport that never answers it never returns, where \<^verbatim>\<open>sendEmail\<close> of server.js returns
  a failure in both cases. And the exception undoes more than one transition: with Acme and
  Bolt both sold out and no state file, the alert about Acme is delivered, the mail about
  Bolt is refused, and the pass ends without a state file, so that the transition of Acme,
  which was announced, is not recorded either.
\<close>

theorem prototype_sendEmail_raises:
  "sendEmail_prototype (refusing Depletion ''Acme'') = Some (Inl ''Invalid login'')
   \<and> sendEmail_prototype (silent Depletion ''Acme'') = None
   \<and> sendEmail (refusing Depletion ''Acme'')
       = \<lparr>success = False, messageId = None, error_message = Some ''Invalid login'',
          error_code = Some ''EAUTH''\<rparr>
   \<and> sendEmail (silent Depletion ''Acme'')
       = \<lparr>success = False, messageId = None,
          error_message = Some ''Email send timeout after 10 seconds'', error_code = None\<rparr>
   \<and> checkBrandsStock
        (shop [item ''Acme'' ''anvil'' [0, 0], item ''Bolt'' ''nut'' [0]] bolt_refused) NoFile
       = (NoFile, [(Depletion, ''Acme'')], Throws (MailRejected ''Invalid login''))
   \<and> checkBrandsStock
        (shop [item ''Acme'' ''anvil'' [0, 0], item ''Bolt'' ''nut'' [0]] silent) NoFile
       = (NoFile, [], Waits)"
  using not_array_index
  by (simp add: prototype_defs sendEmail_def race_timeout_def)

section \<open>Properties of the pagination\<close>

subsection \<open>The pattern of the next link\<close>

lemma starts_with_append: "starts_with p (p @ s)"
  by (induction p) simp_all

lemma starts_with_iff: "starts_with p s = (\<exists>t. s = p @ t)"
proof (induction p s rule: starts_with.induct)
  case (1 s)
  show ?case by simp
next
  case (2 p ps)
  show ?case by simp
next
  case (3 p ps c cs)
  then show ?case by auto
qed

lemma dropWhile_whitespace:
  assumes "list_all js_whitespace ws"
  shows "dropWhile js_whitespace (ws @ rel_next @ post) = rel_next @ post"
proof -
  have "\<not> js_whitespace (hd (rel_next @ post))"
    by (simp add: rel_next_def js_whitespace_def)
  moreover have "rel_next @ post \<noteq> []"
    by (simp add: rel_next_def)
  ultimately have "dropWhile js_whitespace (rel_next @ post) = rel_next @ post"
    by (cases "rel_next @ post") simp_all
  moreover have "dropWhile js_whitespace (ws @ rel_next @ post)
      = dropWhile js_whitespace (rel_next @ post)"
    using assms by (simp add: dropWhile_append list_all_iff)
  ultimately show ?thesis by simp
qed

lemma run_until:
  assumes "c \<notin> set u"
  shows "takeWhile (\<lambda>x. x \<noteq> c) (u @ c # rest) = u"
    and "dropWhile (\<lambda>x. x \<noteq> c) (u @ c # rest) = c # rest"
  using assms by (induction u) auto

lemma match_next_here_complete:
  assumes "u \<noteq> []" and "CHR ''>'' \<notin> set u" and "list_all js_whitespace ws"
  shows "match_next_here (''<'' @ u @ ''>;'' @ ws @ rel_next @ post) = Some u"
proof -
  have take: "takeWhile (\<lambda>x. x \<noteq> CHR ''>'') (u @ ''>;'' @ ws @ rel_next @ post) = u"
    using run_until(1) [OF assms(2)] by simp
  have drop: "dropWhile (\<lambda>x. x \<noteq> CHR ''>'') (u @ ''>;'' @ ws @ rel_next @ post)
      = ''>;'' @ ws @ rel_next @ post"
    using run_until(2) [OF assms(2)] by simp
  show ?thesis
    using assms(1) take drop dropWhile_whitespace [OF assms(3), of post]
    by (simp add: match_next_here_def starts_with_append)
qed

lemma match_next_here_sound:
  assumes "match_next_here s = Some u"
  shows "\<exists>ws post. s = ''<'' @ u @ ''>;'' @ ws @ rel_next @ post
           \<and> u \<noteq> [] \<and> CHR ''>'' \<notin> set u \<and> list_all js_whitespace ws"
proof -
  obtain r where s: "s = CHR ''<'' # r"
    using assms by (cases s) (auto simp add: match_next_here_def split: if_splits)
  let ?after = "dropWhile (\<lambda>x. x \<noteq> CHR ''>'') r"
  have u: "u = takeWhile (\<lambda>x. x \<noteq> CHR ''>'') r" and "u \<noteq> []"
    using assms s
    by (auto simp add: match_next_here_def Let_def split: if_splits list.splits)
  obtain gt t where after: "?after = gt # CHR '';'' # t"
    and rel: "starts_with rel_next (dropWhile js_whitespace t)"
    using assms s
    by (auto simp add: match_next_here_def Let_def split: if_splits list.splits)
  have "gt = CHR ''>''"
    using after hd_dropWhile [of "\<lambda>x. x \<noteq> CHR ''>''" r] by auto
  obtain post where post: "dropWhile js_whitespace t = rel_next @ post"
    using rel by (auto simp add: starts_with_iff)
  have "t = takeWhile js_whitespace t @ rel_next @ post"
    using post takeWhile_dropWhile_id [of js_whitespace t] by simp
  moreover have "r = u @ ?after"
    using u by simp
  moreover have "CHR ''>'' \<notin> set u"
    using u by (auto dest: set_takeWhileD)
  moreover have "list_all js_whitespace (takeWhile js_whitespace t)"
    by (auto simp add: list_all_iff dest: set_takeWhileD)
  ultimately show ?thesis
    using s after \<open>gt = CHR ''>''\<close> \<open>u \<noteq> []\<close>
    by (intro exI [of _ "takeWhile js_whitespace t"] exI [of _ post]) simp
qed

lemma match_next_sound:
  assumes "match_next l = Some u"
  shows "\<exists>pre ws post. l = pre @ ''<'' @ u @ ''>;'' @ ws @ rel_next @ post
           \<and> u \<noteq> [] \<and> CHR ''>'' \<notin> set u \<and> list_all js_whitespace ws"
  using assms
proof (induction l)
  case Nil
  then show ?case by simp
next
  case (Cons c cs)
  show ?case
  proof (cases "match_next_here (c # cs)")
    case (Some v)
    then have "v = u" using Cons.prems by simp
    then obtain ws post where "c # cs = ''<'' @ u @ ''>;'' @ ws @ rel_next @ post
           \<and> u \<noteq> [] \<and> CHR ''>'' \<notin> set u \<and> list_all js_whitespace ws"
      using match_next_here_sound [OF Some] by blast
    then show ?thesis
      by (intro exI [of _ "[]"] exI [of _ ws] exI [of _ post]) simp
  next
    case None
    then have "match_next cs = Some u" using Cons.prems by simp
    then obtain pre ws post where "cs = pre @ ''<'' @ u @ ''>;'' @ ws @ rel_next @ post
           \<and> u \<noteq> [] \<and> CHR ''>'' \<notin> set u \<and> list_all js_whitespace ws"
      using Cons.IH by blast
    then show ?thesis
      by (intro exI [of _ "c # pre"] exI [of _ ws] exI [of _ post]) simp
  qed
qed

lemma match_next_complete:
  assumes "u \<noteq> []" and "CHR ''>'' \<notin> set u" and "list_all js_whitespace ws"
  shows "match_next (pre @ ''<'' @ u @ ''>;'' @ ws @ rel_next @ post) \<noteq> None"
proof (induction pre)
  case Nil
  have "match_next_here (''<'' @ u @ ''>;'' @ ws @ rel_next @ post) = Some u"
    using assms by (rule match_next_here_complete)
  then show ?case by simp
next
  case (Cons c pre)
  then show ?case
    by (cases "match_next_here ((c # pre) @ ''<'' @ u @ ''>;'' @ ws @ rel_next @ post)") simp_all
qed

text \<open>
  A header has a next page exactly when it contains the pattern; an absent header, an
  empty one and one without the pattern give none. The URL found is never empty.
\<close>

lemma next_url_iff:
  "(next_url (Some l) \<noteq> None)
     = (\<exists>pre u ws post. l = pre @ ''<'' @ u @ ''>;'' @ ws @ rel_next @ post
          \<and> u \<noteq> [] \<and> CHR ''>'' \<notin> set u \<and> list_all js_whitespace ws)"
proof
  assume "next_url (Some l) \<noteq> None"
  then obtain u where "match_next l = Some u"
    by (auto simp add: next_url_def split: if_splits)
  then show "\<exists>pre u ws post. l = pre @ ''<'' @ u @ ''>;'' @ ws @ rel_next @ post
          \<and> u \<noteq> [] \<and> CHR ''>'' \<notin> set u \<and> list_all js_whitespace ws"
    using match_next_sound by blast
next
  assume "\<exists>pre u ws post. l = pre @ ''<'' @ u @ ''>;'' @ ws @ rel_next @ post
          \<and> u \<noteq> [] \<and> CHR ''>'' \<notin> set u \<and> list_all js_whitespace ws"
  then obtain pre u ws post where l: "l = pre @ ''<'' @ u @ ''>;'' @ ws @ rel_next @ post"
    and "u \<noteq> []" and "CHR ''>'' \<notin> set u" and "list_all js_whitespace ws"
    by blast
  then have "match_next l \<noteq> None"
    using match_next_complete [of u ws pre post] by simp
  moreover have "l \<noteq> []" using l by simp
  ultimately show "next_url (Some l) \<noteq> None"
    by (simp add: next_url_def)
qed

lemma next_url_not_empty:
  assumes "next_url h = Some u"
  shows "u \<noteq> []"
proof -
  obtain l where "match_next l = Some u"
    using assms by (auto simp add: next_url_def split: option.splits if_splits)
  then show ?thesis using match_next_sound by blast
qed

subsection \<open>The loop over the pages\<close>

lemma whileUrl_refused:
  assumes "fetch u = Response r" and "u \<noteq> []" and "\<not> response_ok r"
  shows "whileUrl fetch (Some u) acc = Some (Inl (ShopifyApiError (status r) (statusText r)))"
  using assms by (subst whileUrl.simps) simp

lemma whileUrl_page:
  assumes "fetch u = Response r" and "u \<noteq> []" and "response_ok r" and "products_json r = Some d"
  shows "whileUrl fetch (Some u) acc
           = whileUrl fetch (next_url (linkHeader r)) (acc @ page_products r)"
proof -
  have "(case d of None \<Rightarrow> [] | Some ps \<Rightarrow> ps) = page_products r"
    using assms(4) by (simp add: page_products_def split: option.split)
  then show ?thesis
    using assms by (subst whileUrl.simps) simp
qed

lemma whileUrl_done: "whileUrl fetch None acc = Some (Inr acc)"
  by (subst whileUrl.simps) simp

lemma whileUrl_visits_refused:
  assumes "visits fetch u rs r" and "\<not> response_ok r"
  shows "whileUrl fetch (Some u) acc = Some (Inl (ShopifyApiError (status r) (statusText r)))"
  using assms
proof (induction arbitrary: acc rule: visits.induct)
  case (arrive fetch u r)
  then show ?case by (simp add: whileUrl_refused)
next
  case (follow fetch u r d u' rs r')
  have "whileUrl fetch (Some u) acc = whileUrl fetch (Some u') (acc @ page_products r)"
    using follow.hyps by (simp add: whileUrl_page)
  then show ?case using follow.IH follow.prems by simp
qed

lemma whileUrl_visits_last:
  assumes "visits fetch u rs r" and "response_ok r" and "products_json r = Some d"
    and "next_url (linkHeader r) = None"
  shows "whileUrl fetch (Some u) acc = Some (Inr (acc @ concat (map page_products (rs @ [r]))))"
  using assms
proof (induction arbitrary: acc rule: visits.induct)
  case (arrive fetch u r)
  then show ?case by (simp add: whileUrl_page whileUrl_done)
next
  case (follow fetch u r d' u' rs r')
  have "whileUrl fetch (Some u) acc = whileUrl fetch (Some u') (acc @ page_products r)"
    using follow.hyps by (simp add: whileUrl_page)
  then show ?case using follow.IH [of "acc @ page_products r"] follow.prems by simp
qed

lemma products_url_not_empty: "products_url cfg v \<noteq> []"
  by (simp add: products_url_def)

text \<open>
  C8. \<^verbatim>\<open>getProductsForBrand\<close> walks from the first URL along the next links. When the
  walk passes through pages \<open>rs\<close> and comes to a successful page \<open>r\<close> without a next link,
  the result is the products of all these pages in order, and the loop stops there. When
  the walk comes to an answer outside 200 to 299, the result is the error with the status
  of that answer and no product at all. A first page without products and without next
  link gives the empty list. An absent header has no next link, and a header has one
  exactly when it contains \<^verbatim>\<open><\<close>, a non-empty target without \<^verbatim>\<open>>\<close>, \<^verbatim>\<open>>;\<close>, white
  space and \<^verbatim>\<open>rel="next"\<close>.
\<close>

theorem getProductsForBrand_follows_pages:
  "(visits fetch (products_url cfg v) rs r \<and> response_ok r \<and> products_json r = Some d
      \<and> next_url (linkHeader r) = None \<longrightarrow>
      getProductsForBrand fetch cfg v = Some (Inr (concat (map page_products (rs @ [r])))))
   \<and> (visits fetch (products_url cfg v) rs r \<and> \<not> response_ok r \<longrightarrow>
      getProductsForBrand fetch cfg v = Some (Inl (ShopifyApiError (status r) (statusText r))))
   \<and> (fetch (products_url cfg v) = Response r \<and> response_ok r
      \<and> (products_json r = Some None \<or> products_json r = Some (Some []))
      \<and> next_url (linkHeader r) = None \<longrightarrow>
      getProductsForBrand fetch cfg v = Some (Inr []))
   \<and> next_url None = None
   \<and> (next_url (Some l) \<noteq> None)
       = (\<exists>pre u ws post. l = pre @ ''<'' @ u @ ''>;'' @ ws @ rel_next @ post
            \<and> u \<noteq> [] \<and> CHR ''>'' \<notin> set u \<and> list_all js_whitespace ws)"
proof -
  have all_pages: "getProductsForBrand fetch cfg v
      = Some (Inr (concat (map page_products (rs @ [r]))))"
    if "visits fetch (products_url cfg v) rs r" and "response_ok r"
      and "products_json r = Some d" and "next_url (linkHeader r) = None"
    using whileUrl_visits_last [OF that, of "[]"] by (simp add: getProductsForBrand_def)
  have refused: "getProductsForBrand fetch cfg v
      = Some (Inl (ShopifyApiError (status r) (statusText r)))"
    if "visits fetch (products_url cfg v) rs r" and "\<not> response_ok r"
    using whileUrl_visits_refused [OF that, of "[]"] by (simp add: getProductsForBrand_def)
  have no_product: "getProductsForBrand fetch cfg v = Some (Inr [])"
    if first: "fetch (products_url cfg v) = Response r" and ok: "response_ok r"
      and none: "products_json r = Some None \<or> products_json r = Some (Some [])"
      and last: "next_url (linkHeader r) = None"
  proof -
    have here: "visits fetch (products_url cfg v) [] r"
      using first products_url_not_empty by (rule visits.arrive)
    obtain d' where d': "products_json r = Some d'" using none by blast
    have "page_products r = []"
      using none by (auto simp add: page_products_def)
    then show ?thesis
      using whileUrl_visits_last [OF here ok d' last, of "[]"]
      by (simp add: getProductsForBrand_def)
  qed
  have absent: "next_url None = None"
    by (simp add: next_url_def)
  show ?thesis
    using all_pages refused no_product absent next_url_iff [of l] by blast
qed

lemma link_to_next_found:
  assumes "u \<noteq> []" and "CHR ''>'' \<notin> set u"
  shows "next_url (Some (link_to_next u)) = Some u"
proof -
  have "match_next_here (''<'' @ u @ ''>;'' @ '' '' @ rel_next @ []) = Some u"
    using assms by (intro match_next_here_complete) (simp_all add: js_whitespace_def)
  then show ?thesis
    by (simp add: next_url_def link_to_next_def)
qed

lemma second_page_found: "next_url (Some (link_to_next second_page)) = Some second_page"
  by (rule link_to_next_found) (simp_all add: second_page_def)

lemma first_page_url:
  "products_url example_config ''Acme''
     = ''https://example.myshopify.com/admin/api/2024-10/products.json?vendor=Acme&limit=250''"
  by code_simp

theorem getProductsForBrand_follows_pages_witness:
  "visits two_pages (products_url example_config ''Acme'')
     [\<lparr>status = 200, statusText = ''OK'',
       products_json = Some (Some [item ''Acme'' ''anvil'' [0]]),
       linkHeader = Some (link_to_next second_page)\<rparr>]
     \<lparr>status = 200, statusText = ''OK'',
       products_json = Some (Some [item ''Acme'' ''rocket'' [2], item ''Acme'' ''magnet'' [1]]),
       linkHeader = None\<rparr>
   \<and> getProductsForBrand two_pages example_config ''Acme''
       = Some (Inr [item ''Acme'' ''anvil'' [0], item ''Acme'' ''rocket'' [2],
                    item ''Acme'' ''magnet'' [1]])
   \<and> visits second_page_refused (products_url example_config ''Acme'')
     [\<lparr>status = 200, statusText = ''OK'',
       products_json = Some (Some [item ''Acme'' ''anvil'' [0]]),
       linkHeader = Some (link_to_next second_page)\<rparr>]
     \<lparr>status = 429, statusText = ''Too Many Requests'', products_json = None, linkHeader = None\<rparr>
   \<and> getProductsForBrand second_page_refused example_config ''Acme''
       = Some (Inl (ShopifyApiError 429 ''Too Many Requests''))
   \<and> bolt_empty (products_url example_config ''Bolt'')
       = Response \<lparr>status = 200, statusText = ''OK'', products_json = Some (Some []),
           linkHeader = None\<rparr>
   \<and> getProductsForBrand bolt_empty example_config ''Bolt'' = Some (Inr [])
   \<and> next_url (Some (link_to_next second_page)) \<noteq> None"
proof -
  let ?p1 = "\<lparr>status = 200, statusText = ''OK'',
       products_json = Some (Some [item ''Acme'' ''anvil'' [0]]),
       linkHeader = Some (link_to_next second_page)\<rparr>"
  let ?p2 = "\<lparr>status = 200, statusText = ''OK'',
       products_json = Some (Some [item ''Acme'' ''rocket'' [2], item ''Acme'' ''magnet'' [1]]),
       linkHeader = None\<rparr>"
  let ?refusal = "\<lparr>status = 429, statusText = ''Too Many Requests'', products_json = None,
       linkHeader = None\<rparr>"
  let ?empty = "\<lparr>status = 200, statusText = ''OK'', products_json = Some (Some []),
       linkHeader = None\<rparr>"
  have differ: "second_page \<noteq> products_url example_config ''Acme''"
    by (simp add: first_page_url second_page_def)
  have walk: "visits two_pages (products_url example_config ''Acme'') [?p1] ?p2"
  proof (rule visits.follow)
    show "two_pages (products_url example_config ''Acme'') = Response ?p1"
      by (simp add: two_pages_def serving_def page_def)
    show "visits two_pages second_page [] ?p2"
      using differ by (intro visits.arrive) (simp_all add: two_pages_def serving_def page_def second_page_def)
    show "next_url (linkHeader ?p1) = Some second_page"
      by (simp add: second_page_found)
  qed (simp_all add: products_url_not_empty response_ok_def)
  have broken: "visits second_page_refused (products_url example_config ''Acme'') [?p1] ?refusal"
  proof (rule visits.follow)
    show "second_page_refused (products_url example_config ''Acme'') = Response ?p1"
      by (simp add: second_page_refused_def serving_def page_def)
    show "visits second_page_refused second_page [] ?refusal"
      using differ
      by (intro visits.arrive)
        (simp_all add: second_page_refused_def serving_def failure_def second_page_def)
    show "next_url (linkHeader ?p1) = Some second_page"
      by (simp add: second_page_found)
  qed (simp_all add: products_url_not_empty response_ok_def)
  have bolt: "bolt_empty (products_url example_config ''Bolt'') = Response ?empty"
    by code_simp
  have facts: "response_ok ?p2 \<and> products_json ?p2
        = Some (Some [item ''Acme'' ''rocket'' [2], item ''Acme'' ''magnet'' [1]])
      \<and> next_url (linkHeader ?p2) = None \<and> \<not> response_ok ?refusal \<and> response_ok ?empty
      \<and> products_json ?empty = Some (Some []) \<and> next_url (linkHeader ?empty) = None"
    by (simp add: response_ok_def next_url_def)
  have found: "\<exists>pre u ws post. link_to_next second_page = pre @ ''<'' @ u @ ''>;'' @ ws @ rel_next @ post
        \<and> u \<noteq> [] \<and> CHR ''>'' \<notin> set u \<and> list_all js_whitespace ws"
    by (intro exI [of _ "[]"] exI [of _ second_page] exI [of _ "'' ''"])
      (simp add: link_to_next_def second_page_def js_whitespace_def)
  show ?thesis
    using walk broken bolt facts found
      getProductsForBrand_follows_pages [of two_pages example_config "''Acme''" "[?p1]" ?p2
        "Some [item ''Acme'' ''rocket'' [2], item ''Acme'' ''magnet'' [1]]"
        "link_to_next second_page"]
      getProductsForBrand_follows_pages [of second_page_refused example_config "''Acme''" "[?p1]"
        ?refusal None "link_to_next second_page"]
      getProductsForBrand_follows_pages [of bolt_empty example_config "''Bolt''" "[]" ?empty
        "Some []" "link_to_next second_page"]
    by (simp add: page_products_def)
qed

section \<open>Properties of the signature check\<close>

lemma length_sha_rounds: "length (sha_rounds vars ks ws) = length vars"
  by (induction vars ks ws rule: sha_rounds.induct) (simp_all add: Let_def)

lemma length_sha_block: "length (sha_block hs block) = length hs"
  by (simp add: sha_block_def length_sha_rounds)

lemma length_foldl_sha_block: "length (foldl sha_block hs blocks) = length hs"
  by (induction blocks arbitrary: hs) (simp_all add: length_sha_block)

lemma length_words_bytes: "length (concat (map bytes_of_word ws)) = 4 * length ws"
  by (induction ws) (simp_all add: bytes_of_word_def)

lemma length_sha256: "length (sha256 msg) = 32"
  by (simp add: sha256_def Let_def length_words_bytes length_foldl_sha_block initial_hash_def)

lemma base64_not_empty: "bs \<noteq> [] \<Longrightarrow> base64 bs \<noteq> []"
  by (cases bs rule: base64.cases) simp_all

lemma hmac_base64_not_empty: "hmac_base64 secret data \<noteq> []"
proof -
  have "length (hmac_sha256 k m) = 32" for k m
    by (simp add: hmac_sha256_def Let_def length_sha256)
  then have "hmac_sha256 k m \<noteq> []" for k m
    by (metis length_0_conv zero_neq_numeral)
  then show ?thesis
    by (simp add: hmac_base64_def base64_not_empty)
qed

text \<open>
  The later variant satisfies the contract of the verifier: it accepts exactly the
  requests whose header is the base64 HMAC of the bytes that arrived, and it answers
  \<open>False\<close> when the header is absent, when no body was read, and when the lengths differ.
\<close>

lemma verifyWebhook_rawBody_correct:
  "verifyWebhook_rawBody cfg req
     = (\<exists>raw. rawBody req = Some raw
          \<and> hmac_header req = Some (hmac_base64 (SHOPIFY_WEBHOOK_SECRET cfg) raw))"
  using hmac_base64_not_empty [of "SHOPIFY_WEBHOOK_SECRET cfg"]
  by (auto simp add: verifyWebhook_rawBody_def timingSafeEqual_def Let_def
      split: option.splits)

lemma verifyWebhook_rawBody_fails_closed:
  "(hmac_header req = None \<longrightarrow> \<not> verifyWebhook_rawBody cfg req)
   \<and> (rawBody req = None \<longrightarrow> \<not> verifyWebhook_rawBody cfg req)
   \<and> (hmac_header req = Some h \<and> rawBody req = Some raw
        \<and> length h \<noteq> length (hmac_base64 (SHOPIFY_WEBHOOK_SECRET cfg) raw) \<longrightarrow>
      \<not> verifyWebhook_rawBody cfg req)"
  by (auto simp add: verifyWebhook_rawBody_def timingSafeEqual_def Let_def
      split: option.splits)

text \<open>The first server looks at the parsed body only: the bytes that arrived play no part.\<close>

lemma verifyWebhook_reads_parsed_body:
  "verifyWebhook cfg req
     = (hmac_header req = Some (hmac_base64 (SHOPIFY_WEBHOOK_SECRET cfg) (stringify (body req))))"
  by (auto simp add: verifyWebhook_def Let_def)

lemma hmac_of_compact_body:
  "hmac_base64 ''s3cr3t'' (''{'' @ [CHR 0x22] @ ''a'' @ [CHR 0x22] @ '':1}'')
     = ''1CknQ0BJ4LjHPOiHBiI4zBxrtmRL/mbmbY3Q8wuFZ54=''"
  by code_simp

lemma hmac_of_spaced_body:
  "hmac_base64 ''s3cr3t'' spaced_body = ''AdgXmT6IbvXmRPsBTEaR6cO5GnQ+9fXFUJ+7iiuOJ2o=''"
  by code_simp

lemma stringify_example:
  "stringify (JObject [(''a'', JNumber 1)]) = ''{'' @ [CHR 0x22] @ ''a'' @ [CHR 0x22] @ '':1}''"
  by code_simp

lemma hmac_of_parsed_body:
  "hmac_base64 ''s3cr3t'' (stringify (JObject [(''a'', JNumber 1)]))
     = ''1CknQ0BJ4LjHPOiHBiI4zBxrtmRL/mbmbY3Q8wuFZ54=''"
  by (simp only: stringify_example hmac_of_compact_body)

text \<open>
  C5 on the first server (server.js, lines 71 to 79). The request \<open>signed_request\<close> carries
  the HMAC of the very bytes of its body, and the later variant accepts it; the first
  server refuses it, because it hashes \<^verbatim>\<open>JSON.stringify(req.body)\<close>, which has lost the
  space. The request \<open>missigned_request\<close> carries a signature that is not the HMAC of
  its bytes, and the first server accepts it.
\<close>

theorem verifyWebhook_hashes_reserialised_body:
  "hmac_header signed_request = Some (hmac_base64 (SHOPIFY_WEBHOOK_SECRET example_config) spaced_body)
   \<and> rawBody signed_request = Some spaced_body
   \<and> verifyWebhook_rawBody example_config signed_request
   \<and> \<not> verifyWebhook example_config signed_request
   \<and> rawBody missigned_request = Some spaced_body
   \<and> hmac_header missigned_request
        \<noteq> Some (hmac_base64 (SHOPIFY_WEBHOOK_SECRET example_config) spaced_body)
   \<and> \<not> verifyWebhook_rawBody example_config missigned_request
   \<and> verifyWebhook example_config missigned_request"
  by (simp add: verifyWebhook_reads_parsed_body verifyWebhook_rawBody_correct signed_request_def
      missigned_request_def example_config_def hmac_of_spaced_body hmac_of_parsed_body
      del: stringify.simps)

section \<open>A failing fetch\<close>

text \<open>
  On the webhook server one \<^verbatim>\<open>try\<close> surrounds the whole loop: the error of one brand ends
  the pass, and no brand after it in the list is looked at.
\<close>

lemma forBrands_stops_at_error:
  assumes "checkBrandStock (catalog env) cfg b = Some (Inl e)"
  shows "forBrands env cfg (b # rest) st
           = \<lparr>lastNotificationState = fst st, sent = snd st, ending = Caught e\<rparr>"
  using assms by simp

lemma check_acme_unavailable:
  "checkBrandStock acme_unavailable example_config ''Acme''
     = Some (Inl (ShopifyApiError 500 ''Internal Server Error''))"
  by code_simp

lemma check_bolt_sold_out:
  "checkBrandStock acme_unavailable example_config ''Bolt''
     = Some (Inr \<lparr>allOOS = True, totalProducts = 1, oosProducts = 1, inStockProducts = 0\<rparr>)"
  by code_simp

text \<open>
  C6 on the webhook server (server.js, lines 194 to 236). Acme's listing answers 500 and
  Bolt is sold out, with nothing stored yet. The pass over both brands ends at Acme's
  error: no alert is sent and Bolt stays without entry, although a pass over Bolt alone
  sends the depletion alert and stores \<open>OOS\<close>. The store of the failing brand is not
  touched.
\<close>

theorem error_ends_the_pass:
  "snd (webhook_inventory (world acme_unavailable delivers) example_config accepted_request
      [''Acme'' \<mapsto> IN_STOCK])
     = \<lparr>lastNotificationState = [''Acme'' \<mapsto> IN_STOCK], sent = [],
        ending = Caught (ShopifyApiError 500 ''Internal Server Error'')\<rparr>
   \<and> forBrands (world acme_unavailable delivers) example_config [''Bolt'']
        ([''Acme'' \<mapsto> IN_STOCK], [])
     = \<lparr>lastNotificationState = [''Acme'' \<mapsto> IN_STOCK, ''Bolt'' \<mapsto> OOS],
        sent = [(AllOutOfStock ''Bolt''
                   \<lparr>allOOS = True, totalProducts = 1, oosProducts = 1, inStockProducts = 0\<rparr>,
                 \<lparr>success = True, messageId = Some ''<1@example>'', error_message = None,
                    error_code = None\<rparr>)],
        ending = Completed\<rparr>"
  by (simp add: webhook_inventory_def accepted_request_verified example_brands world_def
      check_acme_unavailable check_bolt_sold_out reconcileBrand_def Let_def delivers_def
      sendEmail_cases)

text \<open>
  The stand-alone monitor catches the error inside the loop and goes on with the other
  brands, but it saves a state that was built from nothing: a brand whose fetch failed, or
  which has no product, loses its entry, whatever the file said before.
\<close>

lemma checkAllBrands_forgets_failed_brand:
  assumes "checkAllBrands env cfg state_file = Some (saved, sending)"
    and "state_file_writable env"
    and "checkBrandStock_monitor (catalog env) cfg b = Some (Inl e)
         \<or> checkBrandStock_monitor (catalog env) cfg b = Some (Inr None)"
  shows "saved b = None"
  using checkAllBrands_saved [OF assms(1,2), of b] assms(3) by auto

lemma monitor_check_acme_unavailable:
  "checkBrandStock_monitor acme_unavailable example_config ''Acme''
     = Some (Inl (ApiError 500 ''Internal Server Error''))"
  by code_simp

lemma monitor_check_bolt_sold_out:
  "checkBrandStock_monitor acme_unavailable example_config ''Bolt''
     = Some (Inr (Some \<lparr>allOOS = True, totalProducts = 1, oosProducts = 1, inStockProducts = 0\<rparr>))"
  by code_simp

lemma monitor_forgets_acme:
  "checkAllBrands (world acme_unavailable delivers) example_config [''Acme'' \<mapsto> OOS]
     = Some ([''Bolt'' \<mapsto> OOS],
         [(AllOutOfStock ''Bolt''
             \<lparr>allOOS = True, totalProducts = 1, oosProducts = 1, inStockProducts = 0\<rparr>, True)])"
  by (simp add: checkAllBrands_def example_brands world_def monitor_check_acme_unavailable
      monitor_check_bolt_sold_out sendEmail_monitor_def delivers_def)

section \<open>A brand without products on the stand-alone monitor\<close>

lemma monitor_check_anvil:
  "checkBrandStock_monitor bolt_empty example_config ''Acme''
     = Some (Inr (Some \<lparr>allOOS = True, totalProducts = 1, oosProducts = 1, inStockProducts = 0\<rparr>))"
  by code_simp

lemma monitor_check_bolt_empty:
  "checkBrandStock_monitor bolt_empty example_config ''Bolt'' = Some (Inr None)"
  by code_simp

lemma monitor_check_both_sold_out:
  "checkBrandStock_monitor both_sold_out example_config ''Acme''
     = Some (Inr (Some \<lparr>allOOS = True, totalProducts = 1, oosProducts = 1, inStockProducts = 0\<rparr>))"
  "checkBrandStock_monitor both_sold_out example_config ''Bolt''
     = Some (Inr (Some \<lparr>allOOS = True, totalProducts = 1, oosProducts = 1, inStockProducts = 0\<rparr>))"
  by code_simp+

text \<open>
  C10 on the stand-alone monitor (\<^verbatim>\<open>checkAllBrands\<close>, shopify-api-only-monitor.js, lines
  148 to 216). The state file has Acme and Bolt as \<open>OOS\<close>; Acme is sold out and the fetch
  for Bolt returns no product. The pass sends no alert, but the state that it saves was
  built from nothing and has no entry for Bolt: the stored \<open>OOS\<close> is gone, where the claim
  has it unchanged. When Bolt is listed again, sold out as before, the next pass sends a
  depletion alert about Bolt, which a pass from the state file of the beginning does not.
\<close>

theorem monitor_forgets_empty_brand:
  "getProductsForBrand_monitor (catalog (world bolt_empty delivers)) example_config ''Bolt''
     = Some (Inr [])
   \<and> checkAllBrands (world bolt_empty delivers) example_config [''Acme'' \<mapsto> OOS, ''Bolt'' \<mapsto> OOS]
     = Some ([''Acme'' \<mapsto> OOS], [])
   \<and> [''Acme'' \<mapsto> OOS] ''Bolt'' = None
   \<and> checkAllBrands (world both_sold_out delivers) example_config [''Acme'' \<mapsto> OOS]
     = Some ([''Acme'' \<mapsto> OOS, ''Bolt'' \<mapsto> OOS],
         [(AllOutOfStock ''Bolt''
             \<lparr>allOOS = True, totalProducts = 1, oosProducts = 1, inStockProducts = 0\<rparr>, True)])
   \<and> checkAllBrands (world both_sold_out delivers) example_config
        [''Acme'' \<mapsto> OOS, ''Bolt'' \<mapsto> OOS]
     = Some ([''Acme'' \<mapsto> OOS, ''Bolt'' \<mapsto> OOS], [])"
proof -
  have fetched: "getProductsForBrand_monitor (catalog (world bolt_empty delivers)) example_config
      ''Bolt'' = Some (Inr [])"
    unfolding world_def by code_simp
  have "[''Acme'' \<mapsto> OOS, ''Bolt'' \<mapsto> OOS] ''Acme'' = Some OOS
      \<and> [''Acme'' \<mapsto> OOS, ''Bolt'' \<mapsto> OOS] ''Bolt'' = Some OOS"
    by simp
  then show ?thesis
    using fetched
    by (simp add: checkAllBrands_def example_brands world_def monitor_check_anvil
      monitor_check_bolt_empty monitor_check_both_sold_out sendEmail_monitor_def delivers_def)
qed

section \<open>The pagination of the stand-alone monitor\<close>

subsection \<open>Its pattern\<close>

lemma js_includes_iff: "js_includes l needle = (\<exists>pre post. l = pre @ needle @ post)"
proof (induction l)
  case Nil
  show ?case by auto
next
  case (Cons c cs)
  show ?case
  proof
    assume "js_includes (c # cs) needle"
    then consider "starts_with needle (c # cs)" | "js_includes cs needle" by auto
    then show "\<exists>pre post. c # cs = pre @ needle @ post"
    proof cases
      case 1
      then obtain t where "c # cs = needle @ t" by (auto simp add: starts_with_iff)
      then show ?thesis by (intro exI [of _ "[]"] exI [of _ t]) simp
    next
      case 2
      then obtain pre post where "cs = pre @ needle @ post" using Cons.IH by blast
      then show ?thesis by (intro exI [of _ "c # pre"] exI [of _ post]) simp
    qed
  next
    assume "\<exists>pre post. c # cs = pre @ needle @ post"
    then obtain pre post where split: "c # cs = pre @ needle @ post" by blast
    show "js_includes (c # cs) needle"
    proof (cases pre)
      case Nil
      then have "starts_with needle (c # cs)" using split by (simp add: starts_with_iff)
      then show ?thesis by simp
    next
      case (Cons p pre')
      then have "cs = pre' @ needle @ post" using split by simp
      then have "js_includes cs needle" using Cons.IH by blast
      then show ?thesis by simp
    qed
  qed
qed


lemma last_page_info_sound:
  assumes "last_page_info run = Some g"
  shows "\<exists>mid. run = mid @ ''page_info='' @ g \<and> g \<noteq> []"
  using assms
proof (induction run)
  case Nil
  then show ?case by simp
next
  case (Cons c cs)
  show ?case
  proof (cases "last_page_info cs")
    case (Some g')
    then have "g' = g" using Cons.prems by simp
    then obtain mid where "cs = mid @ ''page_info='' @ g \<and> g \<noteq> []"
      using Cons.IH Some by blast
    then show ?thesis by (intro exI [of _ "c # mid"]) simp
  next
    case None
    then have here: "starts_with ''page_info='' (c # cs)" and g: "g = drop 10 (c # cs)"
      and "g \<noteq> []"
      using Cons.prems by (auto split: if_splits)
    obtain t where t: "c # cs = ''page_info='' @ t"
      using here by (auto simp add: starts_with_iff)
    then have "g = t" using g by simp
    then show ?thesis using t \<open>g \<noteq> []\<close> by (intro exI [of _ "[]"]) simp
  qed
qed


lemma last_page_info_complete:
  assumes "g \<noteq> []"
  shows "last_page_info (mid @ ''page_info='' @ g) \<noteq> None"
proof (induction mid)
  case Nil
  have "starts_with ''page_info='' (''page_info='' @ g)"
    by (rule starts_with_append)
  then show ?case using assms by (auto split: option.splits)
next
  case (Cons c mid)
  then show ?case by (auto split: option.splits)
qed


lemma match_page_info_here_sound:
  assumes "match_page_info_here s = Some g"
  shows "\<exists>mid post. s = ''<'' @ mid @ ''page_info='' @ g @ ''>; '' @ rel_next @ post
           \<and> g \<noteq> [] \<and> CHR ''>'' \<notin> set mid \<and> CHR ''>'' \<notin> set g"
proof -
  obtain r where s: "s = CHR ''<'' # r"
    using assms by (cases s) (auto simp add: match_page_info_here_def split: if_splits)
  define run where "run = takeWhile (\<lambda>x. x \<noteq> CHR ''>'') r"
  define after where "after = dropWhile (\<lambda>x. x \<noteq> CHR ''>'') r"
  have whole: "run @ after = r"
    by (simp add: run_def after_def)
  have "match_page_info_here (CHR ''<'' # r)
      = (case last_page_info run of
           None \<Rightarrow> None
         | Some g \<Rightarrow> if starts_with (''>; '' @ rel_next) after then Some g else None)"
    unfolding match_page_info_here_def run_def after_def by simp
  then have found: "last_page_info run = Some g" and rel: "starts_with (''>; '' @ rel_next) after"
    using assms s by (auto split: if_splits option.splits)
  obtain mid where run: "run = mid @ ''page_info='' @ g" and "g \<noteq> []"
    using last_page_info_sound [OF found] by blast
  obtain post where after: "after = (''>; '' @ rel_next) @ post"
    using rel starts_with_iff [of "''>; '' @ rel_next" after] by blast
  have "CHR ''>'' \<notin> set run"
    unfolding run_def by (auto dest: set_takeWhileD)
  then have clean: "CHR ''>'' \<notin> set mid \<and> CHR ''>'' \<notin> set g"
    unfolding run by simp
  have "s = CHR ''<'' # (mid @ ''page_info='' @ g) @ (''>; '' @ rel_next) @ post"
    unfolding s whole [symmetric] run after ..
  then have "s = ''<'' @ mid @ ''page_info='' @ g @ ''>; '' @ rel_next @ post"
    by simp
  then show ?thesis
    using \<open>g \<noteq> []\<close> clean by blast
qed

lemma match_page_info_here_complete:
  assumes "g \<noteq> []" and "CHR ''>'' \<notin> set mid" and "CHR ''>'' \<notin> set g"
  shows "match_page_info_here (''<'' @ mid @ ''page_info='' @ g @ ''>; '' @ rel_next @ post)
           \<noteq> None"
proof -
  define run where "run = mid @ ''page_info='' @ g"
  define tail where "tail = ''; '' @ rel_next @ post"
  have no_gt: "CHR ''>'' \<notin> set run"
    using assms(2,3) by (simp add: run_def)
  have shape: "''<'' @ mid @ ''page_info='' @ g @ ''>; '' @ rel_next @ post
      = CHR ''<'' # run @ CHR ''>'' # tail"
    by (simp add: run_def tail_def)
  have take: "takeWhile (\<lambda>x. x \<noteq> CHR ''>'') (run @ CHR ''>'' # tail) = run"
    and drop: "dropWhile (\<lambda>x. x \<noteq> CHR ''>'') (run @ CHR ''>'' # tail) = CHR ''>'' # tail"
    using no_gt by (rule run_until)+
  have rel: "starts_with (''>; '' @ rel_next) (CHR ''>'' # tail)"
    unfolding starts_with_iff tail_def by (intro exI [of _ post]) simp
  obtain g' where found: "last_page_info run = Some g'"
    using last_page_info_complete [OF assms(1), of mid] by (auto simp add: run_def)
  have "match_page_info_here (CHR ''<'' # run @ CHR ''>'' # tail) = Some g'"
    unfolding match_page_info_here_def using found rel by (simp add: take drop)
  then show ?thesis
    unfolding shape by simp
qed

lemma match_page_info_sound:
  assumes "match_page_info l = Some g"
  shows "\<exists>pre mid post. l = pre @ ''<'' @ mid @ ''page_info='' @ g @ ''>; '' @ rel_next @ post
           \<and> g \<noteq> [] \<and> CHR ''>'' \<notin> set mid \<and> CHR ''>'' \<notin> set g"
  using assms
proof (induction l)
  case Nil
  then show ?case by simp
next
  case (Cons c cs)
  show ?case
  proof (cases "match_page_info_here (c # cs)")
    case (Some g')
    then have "g' = g" using Cons.prems by simp
    then obtain mid post where
      "c # cs = ''<'' @ mid @ ''page_info='' @ g @ ''>; '' @ rel_next @ post
         \<and> g \<noteq> [] \<and> CHR ''>'' \<notin> set mid \<and> CHR ''>'' \<notin> set g"
      using match_page_info_here_sound [OF Some] by blast
    then show ?thesis by (intro exI [of _ "[]"] exI [of _ mid] exI [of _ post]) simp
  next
    case None
    then have "match_page_info cs = Some g" using Cons.prems by simp
    then obtain pre mid post where
      "cs = pre @ ''<'' @ mid @ ''page_info='' @ g @ ''>; '' @ rel_next @ post
         \<and> g \<noteq> [] \<and> CHR ''>'' \<notin> set mid \<and> CHR ''>'' \<notin> set g"
      using Cons.IH by blast
    then show ?thesis by (intro exI [of _ "c # pre"] exI [of _ mid] exI [of _ post]) simp
  qed
qed


lemma match_page_info_complete:
  assumes "g \<noteq> []" and "CHR ''>'' \<notin> set mid" and "CHR ''>'' \<notin> set g"
  shows "match_page_info (pre @ ''<'' @ mid @ ''page_info='' @ g @ ''>; '' @ rel_next @ post)
           \<noteq> None"
proof (induction pre)
  case Nil
  have "match_page_info_here (''<'' @ mid @ ''page_info='' @ g @ ''>; '' @ rel_next @ post)
          \<noteq> None"
    using assms by (rule match_page_info_here_complete)
  then show ?case by (auto split: option.splits)
next
  case (Cons c pre)
  then show ?case by (auto split: option.splits)
qed


text \<open>
  A header gives the monitor a cursor exactly when it contains \<^verbatim>\<open><\<close>, a run without
  \<^verbatim>\<open>>\<close> that holds \<^verbatim>\<open>page_info=\<close> followed by at least one character, and
  \<^verbatim>\<open>>; rel="next"\<close>; the cursor is never empty.
\<close>


lemma next_page_info_iff:
  "(next_page_info (Some l) \<noteq> None)
     = (\<exists>pre mid g post. l = pre @ ''<'' @ mid @ ''page_info='' @ g @ ''>; '' @ rel_next @ post
          \<and> g \<noteq> [] \<and> CHR ''>'' \<notin> set mid \<and> CHR ''>'' \<notin> set g)"
proof
  assume "next_page_info (Some l) \<noteq> None"
  then obtain g where "match_page_info l = Some g"
    by (auto simp add: next_page_info_def split: if_splits)
  then show "\<exists>pre mid g post. l = pre @ ''<'' @ mid @ ''page_info='' @ g @ ''>; '' @ rel_next @ post
          \<and> g \<noteq> [] \<and> CHR ''>'' \<notin> set mid \<and> CHR ''>'' \<notin> set g"
    using match_page_info_sound by blast
next
  assume "\<exists>pre mid g post. l = pre @ ''<'' @ mid @ ''page_info='' @ g @ ''>; '' @ rel_next @ post
          \<and> g \<noteq> [] \<and> CHR ''>'' \<notin> set mid \<and> CHR ''>'' \<notin> set g"
  then obtain pre mid g post
    where l: "l = pre @ ''<'' @ mid @ ''page_info='' @ g @ ''>; '' @ rel_next @ post"
      and g: "g \<noteq> []" "CHR ''>'' \<notin> set mid" "CHR ''>'' \<notin> set g"
    by blast
  have "l = (pre @ ''<'' @ mid @ ''page_info='' @ g @ ''>; '') @ rel_next @ post"
    using l by simp
  then have "js_includes l rel_next"
    unfolding js_includes_iff by blast
  moreover have "l \<noteq> []" using l by simp
  moreover have "match_page_info l \<noteq> None"
    using l match_page_info_complete [OF g, of pre post] by simp
  ultimately show "next_page_info (Some l) \<noteq> None"
    by (simp add: next_page_info_def)
qed


lemma next_page_info_not_empty:
  assumes "next_page_info h = Some c"
  shows "c \<noteq> []"
proof -
  obtain l where "match_page_info l = Some c"
    using assms by (auto simp add: next_page_info_def split: option.splits if_splits)
  then show ?thesis using match_page_info_sound by blast
qed


subsection \<open>Its loop\<close>


lemma whileHasNextPage_refused:
  assumes "fetch (cursor_url base pageInfo) = Response r" and "\<not> response_ok r"
  shows "whileHasNextPage fetch base pageInfo acc = Some (Inl (ApiError (status r) (statusText r)))"
  using assms by (subst whileHasNextPage.simps) simp


lemma whileHasNextPage_last:
  assumes "fetch (cursor_url base pageInfo) = Response r"
    and "response_ok r" and "products_json r = Some d" and "next_page_info (linkHeader r) = None"
  shows "whileHasNextPage fetch base pageInfo acc = Some (Inr (acc @ page_products r))"
proof -
  have "(case d of None \<Rightarrow> [] | Some ps \<Rightarrow> ps) = page_products r"
    using assms(3) by (simp add: page_products_def split: option.split)
  then show ?thesis
    using assms by (subst whileHasNextPage.simps) simp
qed


lemma whileHasNextPage_more:
  assumes "fetch (cursor_url base pageInfo) = Response r"
    and "response_ok r" and "products_json r = Some d" and "next_page_info (linkHeader r) = Some c"
  shows "whileHasNextPage fetch base pageInfo acc
           = whileHasNextPage fetch base (Some c) (acc @ page_products r)"
proof -
  have "(case d of None \<Rightarrow> [] | Some ps \<Rightarrow> ps) = page_products r"
    using assms(3) by (simp add: page_products_def split: option.split)
  then show ?thesis
    using assms by (subst whileHasNextPage.simps) simp
qed


text \<open>
  The monitor's fetch gathers the pages of a walk in the same way, and a refusal on the
  way is an error with the status and without any product.
\<close>


lemma getProductsForBrand_monitor_pages:
  assumes "visits_monitor fetch base pageInfo rs r"
  shows "(\<not> response_ok r \<longrightarrow>
            whileHasNextPage fetch base pageInfo acc
              = Some (Inl (ApiError (status r) (statusText r))))
         \<and> (response_ok r \<and> products_json r \<noteq> None \<and> next_page_info (linkHeader r) = None \<longrightarrow>
            whileHasNextPage fetch base pageInfo acc
              = Some (Inr (acc @ concat (map page_products (rs @ [r])))))"
  using assms
proof (induction arbitrary: acc rule: visits_monitor.induct)
  case (arrive fetch base pageInfo r)
  then show ?case
    by (auto simp add: whileHasNextPage_refused whileHasNextPage_last)
next
  case (follow fetch base pageInfo r d c rs r')
  have "whileHasNextPage fetch base pageInfo acc
      = whileHasNextPage fetch base (Some c) (acc @ page_products r)"
    using follow.hyps by (simp add: whileHasNextPage_more)
  then show ?case using follow.IH [of "acc @ page_products r"] by simp
qed

section \<open>Passes that do not run through\<close>

text \<open>
  Every brand before the failing one is reconciled, the failing one and all that follow
  are not: the pass over the whole list is the pass over the brands before it, ended by
  the error.
\<close>

lemma forBrands_error_skips_rest:
  assumes "list_all (\<lambda>x. \<exists>st. checkBrandStock (catalog env) cfg x = Some (Inr st)) before"
    and "checkBrandStock (catalog env) cfg b = Some (Inl e)"
  shows "forBrands env cfg (before @ b # rest) st
           = (forBrands env cfg before st)\<lparr>ending := Caught e\<rparr>"
  using assms(1)
proof (induction before arbitrary: st)
  case Nil
  then show ?case using assms(2) by simp
next
  case (Cons x before)
  then obtain stockStatus where "checkBrandStock (catalog env) cfg x = Some (Inr stockStatus)"
    by auto
  then show ?case using Cons by simp
qed

text \<open>
  The loop over the pages need not end: on a catalog whose pages point at each other in a
  circle it returns nothing, and the pass stays at that brand.
\<close>

lemma circular_next: "next_url (linkHeader r) = Some ''https://example.myshopify.com/again''"
  if "circular u = Response r"
proof -
  have "linkHeader r = Some (link_to_next ''https://example.myshopify.com/again'')"
    using that by (auto simp add: circular_def page_def)
  then show ?thesis
    using link_to_next_found [of "''https://example.myshopify.com/again''"] by simp
qed

lemma whileUrl_circular:
  assumes "u \<noteq> []"
  shows "whileUrl circular (Some u) acc = None"
proof -
  have never: "fetch = circular \<longrightarrow> (\<forall>v. url = Some v \<longrightarrow> v = [])"
    if run: "whileUrl fetch url allProducts = Some y" for fetch url allProducts y
  proof (rule whileUrl.raw_induct
      [where P = "\<lambda>fetch url allProducts y. fetch = circular \<longrightarrow> (\<forall>v. url = Some v \<longrightarrow> v = [])",
        OF _ run], goal_cases)
    case (1 loop fetch url allProducts y)
    show ?case
    proof (intro impI allI)
      fix v
      assume circle: "fetch = circular" and url: "url = Some v"
      show "v = []"
      proof (rule ccontr)
        assume "v \<noteq> []"
        obtain r where r: "circular v = Response r" and ok: "response_ok r"
          and body: "products_json r = Some (Some [])"
          by (simp add: circular_def page_def response_ok_def)
        have "loop circular (Some ''https://example.myshopify.com/again'') (allProducts @ [])
            = Some y"
          using 1(2) circle url \<open>v \<noteq> []\<close> r ok body circular_next [OF r] by simp
        then have "''https://example.myshopify.com/again'' = []"
          using 1(1) by blast
        then show False by simp
      qed
    qed
  qed
  show ?thesis
  proof (cases "whileUrl circular (Some u) acc")
    case None
    then show ?thesis .
  next
    case (Some y)
    then show ?thesis using never [OF Some] assms by simp
  qed
qed

lemma circular_catalog_pass_pending:
  "forBrands (world circular t) cfg (b # rest) st
     = \<lparr>lastNotificationState = fst st, sent = snd st, ending = Pending\<rparr>"
  by (simp add: world_def checkBrandStock_def getProductsForBrand_def whileUrl_circular
      products_url_not_empty)

end
